theory Spec2Isabelle
  imports Complex_Main "HOL-Library.Sublist"
begin

section \<open>The PII tokenization engine of nl2sql_mcp\<close>

text \<open>
  A shallow embedding of \<^verbatim>\<open>privacy/encoder.py\<close>, \<^verbatim>\<open>privacy/decoder.py\<close> and the two
  PII methods of \<^verbatim>\<open>app/services/redis.py\<close>.

  Python strings are \<open>string\<close> (one \<open>char\<close> per code point, so the model covers text whose
  code points fit a \<open>char\<close>); offsets are \<open>nat\<close>, as the detectors only produce
  non-negative offsets. Module globals (\<^verbatim>\<open>_analyzer\<close>, \<^verbatim>\<open>_token_store\<close>, \<^verbatim>\<open>redis_client\<close>,
  the token file and its lock) are fields of one \<open>state\<close> record that every function
  takes and returns. Everything outside the repository (hashlib, re, presidio, the Redis
  server, the file system, the cipher of \<^verbatim>\<open>privacy.config\<close>) is a field of an \<open>env\<close>
  record; calls whose result may change from one call to the next are indexed by the
  \<open>clock\<close> of the state, which every such call advances.
\<close>

subsection \<open>Strings\<close>

definition slice :: "string \<Rightarrow> nat \<Rightarrow> nat \<Rightarrow> string" where
  \<comment> \<open>\<^verbatim>\<open>s[i:j]\<close> for non-negative \<open>i\<close>, \<open>j\<close>: clamped at the end, empty when \<open>j \<le> i\<close>\<close>
  "slice s i j = drop i (take j s)"

definition char_upper :: "char \<Rightarrow> char" where
  "char_upper c =
     (case map_of (zip ''abcdefghijklmnopqrstuvwxyz'' ''ABCDEFGHIJKLMNOPQRSTUVWXYZ'') c of
        Some u \<Rightarrow> u
      | None \<Rightarrow> c)"

definition upper :: "string \<Rightarrow> string" where
  \<comment> \<open>\<^verbatim>\<open>str.upper()\<close> on ASCII text (the source applies it to hexadecimal digits only)\<close>
  "upper s = map char_upper s"

fun replace_all :: "string \<Rightarrow> string \<Rightarrow> string \<Rightarrow> string" where
  \<comment> \<open>left-to-right replacement of the non-overlapping occurrences of a non-empty \<open>old\<close>\<close>
  "replace_all old new [] = []"
| "replace_all old new (c # cs) =
     (if prefix old (c # cs) then new @ replace_all old new (drop (length old - 1) cs)
      else c # replace_all old new cs)"

definition str_replace :: "string \<Rightarrow> string \<Rightarrow> string \<Rightarrow> string" where
  \<comment> \<open>\<^verbatim>\<open>s.replace(old, new)\<close>; an empty \<open>old\<close> matches before every character and at the end\<close>
  "str_replace s old new =
     (if old = [] then new @ concat (map (\<lambda>c. c # new) s) else replace_all old new s)"

subsection \<open>The token grammar\<close>

text \<open>
  The decoder's pattern: an opening bracket, one or more characters of \<open>A-Z\<close> or
  underscore, an underscore, exactly eight characters of \<open>0-9A-F\<close>, a closing bracket.
\<close>

definition type_char :: "char \<Rightarrow> bool" where
  "type_char c \<longleftrightarrow> c \<in> set ''ABCDEFGHIJKLMNOPQRSTUVWXYZ_''"

definition hex_char :: "char \<Rightarrow> bool" where
  "hex_char c \<longleftrightarrow> c \<in> set ''0123456789ABCDEF''"

definition lower_hex_char :: "char \<Rightarrow> bool" where
  "lower_hex_char c \<longleftrightarrow> c \<in> set ''0123456789abcdef''"

definition fullmatch_token :: "string \<Rightarrow> bool" where
  \<comment> \<open>the whole string matches the token pattern\<close>
  "fullmatch_token s =
     (case s of
        [] \<Rightarrow> False
      | c # r \<Rightarrow>
          c = CHR ''['' \<and> r \<noteq> [] \<and> last r = CHR '']'' \<and>
          (let body = butlast r; n = length body
           in 10 \<le> n \<and> list_all hex_char (drop (n - 8) body) \<and>
              body ! (n - 9) = CHR ''_'' \<and> list_all type_char (take (n - 9) body)))"

definition match_token :: "string \<Rightarrow> string option" where
  \<comment> \<open>the match of the token pattern that starts at the head of the string, if any: no
      character of the pattern's body is a closing bracket, so a match ends at the first one\<close>
  "match_token s =
     (case s of
        [] \<Rightarrow> None
      | c # r \<Rightarrow>
          (let body = takeWhile (\<lambda>x. x \<noteq> CHR '']'') r; cand = c # body @ '']''
           in if length body < length r \<and> fullmatch_token cand then Some cand else None))"

fun tokens_found :: "string \<Rightarrow> string list" where
  \<comment> \<open>\<^verbatim>\<open>re.findall(token_pattern, text)\<close>: leftmost matches, scanning on after each one\<close>
  "tokens_found [] = []"
| "tokens_found (c # cs) =
     (case match_token (c # cs) of
        Some t \<Rightarrow> t # tokens_found (drop (length t - 1) cs)
      | None \<Rightarrow> tokens_found cs)"

definition is_token :: "string \<Rightarrow> bool" where
  \<comment> \<open>the grammar, stated as a decomposition\<close>
  "is_token s \<longleftrightarrow>
     (\<exists>ty hx. s = ''['' @ ty @ ''_'' @ hx @ '']'' \<and> ty \<noteq> [] \<and> list_all type_char ty \<and>
        length hx = 8 \<and> list_all hex_char hx)"

definition token_free :: "string \<Rightarrow> bool" where
  \<comment> \<open>no substring matches the token pattern\<close>
  "token_free s \<longleftrightarrow> (\<forall>a t b. s = a @ t @ b \<longrightarrow> \<not> fullmatch_token t)"

definition token_shaped :: "string \<Rightarrow> bool" where
  \<comment> \<open>bracketed, with no bracket inside\<close>
  "token_shaped t \<longleftrightarrow>
     (\<exists>body. t = CHR ''['' # body @ '']'' \<and> CHR ''['' \<notin> set body \<and> CHR '']'' \<notin> set body)"

subsection \<open>Data\<close>

record span =
  entity_type :: string
  start :: nat
  end_pos :: nat
  score :: real

record mapping =
  map_token :: string
  map_entity_type :: string
  original_len :: int

datatype 'a cell = Str string | Other 'a

datatype 'a result =
    No_result
  | Table "(string \<times> 'a) list" "'a cell list list"
  | Dict_rows "(string \<times> 'a cell) list list"
  | List_rows "'a cell list list"
  | Opaque 'a

datatype pattern = Phone_pattern | Email_pattern | Person_pattern | Org_pattern | Aadhaar_pattern

datatype write_result = Written | Open_fails | Dump_fails

datatype analyzer = Unloaded | Fallback | Engine

datatype token_file = Absent | Unparsable | Not_a_dict | Dict "string \<rightharpoonup> string"

datatype event =
    Redis_setex string nat string
  | Redis_get string
  | File_exists
  | File_read
  | File_write

record env =
  sha256 :: "string \<Rightarrow> nat list"
    \<comment> \<open>the bytes of \<^verbatim>\<open>hashlib.sha256(value.encode())\<close>\<close>
  encrypt_value :: "nat \<Rightarrow> string \<Rightarrow> string"
    \<comment> \<open>\<^verbatim>\<open>privacy.config.encrypt_value\<close>; the first argument is the clock (the cipher is randomized)\<close>
  decrypt_value :: "string \<Rightarrow> string option"
    \<comment> \<open>\<^verbatim>\<open>privacy.config.decrypt_value\<close>; \<open>None\<close> when it raises\<close>
  finditer :: "pattern \<Rightarrow> string \<Rightarrow> (nat \<times> nat) list"
    \<comment> \<open>\<^verbatim>\<open>[(m.start(), m.end()) for m in re.finditer(pattern, text)]\<close>\<close>
  engine_loads :: "nat \<Rightarrow> bool"
    \<comment> \<open>whether building the presidio engine succeeds at this time\<close>
  analyze :: "nat \<Rightarrow> string \<Rightarrow> span list option"
    \<comment> \<open>\<^verbatim>\<open>analyzer.analyze(text, language, entities)\<close>; \<open>None\<close> when it raises\<close>
  redis_fails :: "nat \<Rightarrow> bool"
    \<comment> \<open>whether a command sent to the Redis server raises at this time\<close>
  file_read_fails :: "nat \<Rightarrow> bool"
    \<comment> \<open>whether opening the token file for reading raises at this time\<close>
  file_write :: "nat \<Rightarrow> write_result"
    \<comment> \<open>what opening the token file for writing and dumping to it does at this time\<close>
  hash_order :: "string \<Rightarrow> nat"
    \<comment> \<open>where a string comes when a \<^verbatim>\<open>set\<close> of strings is iterated\<close>

record state =
  analyzer :: analyzer
    \<comment> \<open>\<^verbatim>\<open>_analyzer\<close>: \<^verbatim>\<open>None\<close>, \<^verbatim>\<open>"fallback"\<close> or the engine\<close>
  token_store :: "string \<rightharpoonup> string"
    \<comment> \<open>\<^verbatim>\<open>_token_store\<close>\<close>
  is_connected :: bool
    \<comment> \<open>\<^verbatim>\<open>redis_client.connected\<close>; the constructor leaves \<^verbatim>\<open>client\<close> at \<^verbatim>\<open>None\<close> exactly when it is false\<close>
  redis :: "string \<rightharpoonup> string \<times> nat"
    \<comment> \<open>the server's keys, each with its value and the expiry it was set with\<close>
  token_file :: token_file
    \<comment> \<open>what \<^verbatim>\<open>.token_store.json\<close> holds\<close>
  lock_held :: bool
    \<comment> \<open>\<^verbatim>\<open>_TOKEN_FILE_LOCK\<close>, a non-reentrant \<^verbatim>\<open>threading.Lock\<close>\<close>
  clock :: nat
  trace :: "event list"
    \<comment> \<open>the calls made to the Redis server and to the file system, oldest first\<close>

datatype 'a outcome = Returns 'a | Raises | Hangs

definition then_do ::
  "'a outcome \<times> state \<Rightarrow> ('a \<Rightarrow> state \<Rightarrow> 'b outcome \<times> state) \<Rightarrow> 'b outcome \<times> state" where
  "then_do r f = (case r of (Returns x, s) \<Rightarrow> f x s | (Raises, s) \<Rightarrow> (Raises, s) | (Hangs, s) \<Rightarrow> (Hangs, s))"

definition try_except ::
  "'a outcome \<times> state \<Rightarrow> (state \<Rightarrow> 'a outcome \<times> state) \<Rightarrow> 'a outcome \<times> state" where
  \<comment> \<open>\<^verbatim>\<open>try: ... except Exception: ...\<close>\<close>
  "try_except r h = (case r of (Raises, s) \<Rightarrow> h s | _ \<Rightarrow> r)"

definition tick :: "state \<Rightarrow> state" where
  "tick st = st\<lparr>clock := Suc (clock st)\<rparr>"

definition emit :: "event \<Rightarrow> state \<Rightarrow> state" where
  "emit e st = st\<lparr>trace := trace st @ [e]\<rparr>"

subsection \<open>Tokens\<close>

definition PII_ENTITIES :: "string list" where
  "PII_ENTITIES =
     [''PERSON'', ''ORGANIZATION'', ''LOCATION'', ''EMAIL_ADDRESS'', ''PHONE_NUMBER'', ''IN_AADHAAR'']"

definition hex_digit :: "nat \<Rightarrow> char" where
  "hex_digit d = ''0123456789abcdef'' ! d"

definition hexdigest :: "env \<Rightarrow> string \<Rightarrow> string" where
  \<comment> \<open>\<^verbatim>\<open>hash_obj.hexdigest()\<close>: two lower-case digits for each of the 32 bytes of the digest
      (whatever the environment gives is read as 32 bytes)\<close>
  "hexdigest E v =
     concat (map (\<lambda>b. [hex_digit (b div 16 mod 16), hex_digit (b mod 16)])
       (take 32 (sha256 E v @ replicate 32 0)))"

definition get_token_hash :: "env \<Rightarrow> string \<Rightarrow> string \<Rightarrow> string" where
  "get_token_hash E v ety =
     (let short_hash = upper (take 8 (hexdigest E v))
      in ''['' @ ety @ ''_'' @ short_hash @ '']'')"



subsection \<open>The Redis client (app/services/redis.py)\<close>

definition client_setex :: "env \<Rightarrow> string \<Rightarrow> nat \<Rightarrow> string \<Rightarrow> state \<Rightarrow> unit outcome \<times> state" where
  \<comment> \<open>\<^verbatim>\<open>self.client.setex(key, expiry_seconds, encrypted_value)\<close>\<close>
  "client_setex E key ttl v st =
     (let st1 = tick (emit (Redis_setex key ttl v) st)
      in if redis_fails E (clock st) then (Raises, st1)
         else (Returns (), st1\<lparr>redis := (redis st1)(key \<mapsto> (v, ttl))\<rparr>))"

definition client_get :: "env \<Rightarrow> string \<Rightarrow> state \<Rightarrow> string option outcome \<times> state" where
  \<comment> \<open>\<^verbatim>\<open>self.client.get(key)\<close>\<close>
  "client_get E key st =
     (let st1 = tick (emit (Redis_get key) st)
      in if redis_fails E (clock st) then (Raises, st1)
         else (Returns (map_option fst (redis st key)), st1))"

definition set_pii_mapping :: "env \<Rightarrow> string \<Rightarrow> string \<Rightarrow> nat \<Rightarrow> state \<Rightarrow> bool outcome \<times> state" where
  "set_pii_mapping E tok encrypted_value expiry_seconds st =
     (if \<not> is_connected st then (Returns False, st)
      else try_except
             (then_do (client_setex E (''pii:'' @ tok) expiry_seconds encrypted_value st)
                (\<lambda>_ s. (Returns True, s)))
             (\<lambda>s. (Returns False, s)))"

definition get_pii_mapping :: "env \<Rightarrow> string \<Rightarrow> state \<Rightarrow> string option outcome \<times> state" where
  "get_pii_mapping E tok st =
     (if \<not> is_connected st then (Returns None, st)
      else try_except (client_get E (''pii:'' @ tok) st) (\<lambda>s. (Returns None, s)))"

subsection \<open>The token file\<close>

definition path_exists :: "state \<Rightarrow> bool outcome \<times> state" where
  "path_exists st =
     (Returns (case token_file st of Absent \<Rightarrow> False | _ \<Rightarrow> True), emit File_exists st)"

definition acquire :: "state \<Rightarrow> unit outcome \<times> state" where
  \<comment> \<open>a \<^verbatim>\<open>threading.Lock\<close> that is held blocks whoever acquires it, its holder included\<close>
  "acquire st = (if lock_held st then (Hangs, st) else (Returns (), st\<lparr>lock_held := True\<rparr>))"

definition with_lock :: "(state \<Rightarrow> 'a outcome \<times> state) \<Rightarrow> state \<Rightarrow> 'a outcome \<times> state" where
  \<comment> \<open>\<^verbatim>\<open>with _TOKEN_FILE_LOCK: body\<close>: released when the body returns or raises\<close>
  "with_lock body st =
     then_do (acquire st) (\<lambda>_ s.
       case body s of
         (Hangs, s') \<Rightarrow> (Hangs, s')
       | (Raises, s') \<Rightarrow> (Raises, s'\<lparr>lock_held := False\<rparr>)
       | (Returns x, s') \<Rightarrow> (Returns x, s'\<lparr>lock_held := False\<rparr>))"

definition read_json :: "env \<Rightarrow> state \<Rightarrow> token_file outcome \<times> state" where
  \<comment> \<open>\<^verbatim>\<open>open(_TOKEN_FILE, "r")\<close> and \<^verbatim>\<open>json.load(f)\<close>\<close>
  "read_json E st =
     (let st1 = tick (emit File_read st)
      in if file_read_fails E (clock st) then (Raises, st1)
         else (case token_file st of
                 Absent \<Rightarrow> (Raises, st1)
               | Unparsable \<Rightarrow> (Raises, st1)
               | Not_a_dict \<Rightarrow> (Returns Not_a_dict, st1)
               | Dict m \<Rightarrow> (Returns (Dict m), st1)))"

definition load_token_file :: "env \<Rightarrow> state \<Rightarrow> (string \<rightharpoonup> string) outcome \<times> state" where
  "load_token_file E st =
     then_do (path_exists st) (\<lambda>found s.
       if \<not> found then (Returns Map.empty, s)
       else try_except
              (with_lock (\<lambda>s1. then_do (read_json E s1) (\<lambda>data s2.
                 (Returns (case data of Dict m \<Rightarrow> m | _ \<Rightarrow> Map.empty), s2))) s)
              (\<lambda>s'. (Returns Map.empty, s')))"

definition write_json :: "env \<Rightarrow> (string \<rightharpoonup> string) \<Rightarrow> state \<Rightarrow> unit outcome \<times> state" where
  \<comment> \<open>\<^verbatim>\<open>open(_TOKEN_FILE, "w")\<close> and \<^verbatim>\<open>json.dump(data, f)\<close>\<close>
  "write_json E data st =
     (let st1 = tick (emit File_write st)
      in case file_write E (clock st) of
           Written \<Rightarrow> (Returns (), st1\<lparr>token_file := Dict data\<rparr>)
         | Open_fails \<Rightarrow> (Raises, st1)
         | Dump_fails \<Rightarrow> (Raises, st1\<lparr>token_file := Unparsable\<rparr>))"

definition persist_token :: "env \<Rightarrow> string \<Rightarrow> string \<Rightarrow> state \<Rightarrow> unit outcome \<times> state" where
  "persist_token E tok encrypted_val st =
     try_except
       (with_lock (\<lambda>s1. then_do (load_token_file E s1) (\<lambda>data s2.
          write_json E (data(tok \<mapsto> encrypted_val)) s2)) st)
       (\<lambda>s'. (Returns (), s'))"

definition get_persisted_token :: "env \<Rightarrow> string \<Rightarrow> state \<Rightarrow> string option outcome \<times> state" where
  "get_persisted_token E tok st =
     then_do (load_token_file E st) (\<lambda>data s. (Returns (data tok), s))"

subsection \<open>The detector\<close>

definition patterns :: "(string \<times> pattern) list" where
  "patterns =
     [(''PHONE_NUMBER'', Phone_pattern), (''EMAIL_ADDRESS'', Email_pattern),
      (''PERSON'', Person_pattern), (''ORGANIZATION'', Org_pattern),
      (''IN_AADHAAR'', Aadhaar_pattern)]"

definition regex_detect_pii :: "env \<Rightarrow> string \<Rightarrow> span list" where
  "regex_detect_pii E text =
     concat (map (\<lambda>(ety, pat).
       map (\<lambda>(s, e). \<lparr>entity_type = ety, start = s, end_pos = e, score = 1 / 2\<rparr>)
         (finditer E pat text)) patterns)"

definition build_engine :: "env \<Rightarrow> state \<Rightarrow> unit outcome \<times> state" where
  \<comment> \<open>the body of the \<^verbatim>\<open>try\<close> in \<^verbatim>\<open>get_analyzer\<close>, up to the assignment\<close>
  "build_engine E st = (if engine_loads E (clock st) then Returns () else Raises, tick st)"

definition get_analyzer :: "env \<Rightarrow> state \<Rightarrow> analyzer outcome \<times> state" where
  "get_analyzer E st =
     then_do
       (if analyzer st = Unloaded then
          try_except
            (then_do (build_engine E st) (\<lambda>_ s. (Returns (), s\<lparr>analyzer := Engine\<rparr>)))
            (\<lambda>s. (Returns (), s\<lparr>analyzer := Fallback\<rparr>))
        else (Returns (), st))
       (\<lambda>_ s. (Returns (analyzer s), s))"

definition engine_analyze :: "env \<Rightarrow> string \<Rightarrow> state \<Rightarrow> span list outcome \<times> state" where
  "engine_analyze E text st =
     (case analyze E (clock st) text of
        None \<Rightarrow> (Raises, tick st)
      | Some results \<Rightarrow> (Returns results, tick st))"

definition detect_pii :: "env \<Rightarrow> string \<Rightarrow> state \<Rightarrow> span list outcome \<times> state" where
  \<comment> \<open>the last case (no analyzer object) raises inside the \<^verbatim>\<open>try\<close> and is caught there\<close>
  "detect_pii E text st =
     then_do (get_analyzer E st) (\<lambda>a s.
       case a of
         Fallback \<Rightarrow> (Returns (regex_detect_pii E text), s)
       | Engine \<Rightarrow>
           try_except
             (then_do (engine_analyze E text s) (\<lambda>results s'.
                (Returns (map (\<lambda>res. \<lparr>entity_type = entity_type res, start = start res,
                                 end_pos = end_pos res, score = score res\<rparr>) results), s')))
             (\<lambda>s'. (Returns (regex_detect_pii E text), s'))
       | Unloaded \<Rightarrow> (Returns (regex_detect_pii E text), s))"

subsection \<open>The encoder\<close>

definition PII_TTL_SECONDS :: nat where
  "PII_TTL_SECONDS = 86400"

definition sort_by_start_desc :: "span list \<Rightarrow> span list" where
  \<comment> \<open>\<^verbatim>\<open>results.sort(key=lambda x: x['start'], reverse=True)\<close>: stable, equal keys keep their order\<close>
  "sort_by_start_desc results = rev (sort_key start (rev results))"

definition call_encrypt :: "env \<Rightarrow> string \<Rightarrow> state \<Rightarrow> string outcome \<times> state" where
  "call_encrypt E v st = (Returns (encrypt_value E (clock st) v), tick st)"

definition store_mapping :: "env \<Rightarrow> string \<Rightarrow> string \<Rightarrow> state \<Rightarrow> unit outcome \<times> state" where
  \<comment> \<open>the store block of both encoding loops\<close>
  "store_mapping E tok encrypted_val st =
     (let st1 = st\<lparr>token_store := (token_store st)(tok \<mapsto> encrypted_val)\<rparr>
      in if is_connected st1
         then then_do (set_pii_mapping E tok encrypted_val PII_TTL_SECONDS st1)
                (\<lambda>_ s. (Returns (), s))
         else persist_token E tok encrypted_val st1)"

fun encode_loop ::
  "env \<Rightarrow> string \<Rightarrow> span list \<Rightarrow> string \<times> mapping list \<Rightarrow> state \<Rightarrow>
     (string \<times> mapping list) outcome \<times> state" where
  "encode_loop E text [] acc st = (Returns acc, st)"
| "encode_loop E text (res # rest) (encoded_text, mappings) st =
     (let s = start res; e = end_pos res;
          original_value = slice text s e;
          ety = entity_type res;
          tok = get_token_hash E original_value ety
      in case then_do (call_encrypt E original_value st)
                (\<lambda>encrypted_val st1. store_mapping E tok encrypted_val st1) of
           (Returns _, st2) \<Rightarrow>
             encode_loop E text rest
               (take s encoded_text @ tok @ drop e encoded_text,
                mappings @ [\<lparr>map_token = tok, map_entity_type = ety,
                              original_len = int e - int s\<rparr>]) st2
         | (Raises, st2) \<Rightarrow> (Raises, st2)
         | (Hangs, st2) \<Rightarrow> (Hangs, st2))"

definition encode_query :: "env \<Rightarrow> string \<Rightarrow> state \<Rightarrow> (string \<times> mapping list) outcome \<times> state" where
  "encode_query E text st =
     then_do (detect_pii E text st) (\<lambda>results s.
       encode_loop E text (sort_by_start_desc results) (text, []) s)"

fun encode_cell_loop ::
  "env \<Rightarrow> string \<Rightarrow> span list \<Rightarrow> string \<Rightarrow> state \<Rightarrow> string outcome \<times> state" where
  "encode_cell_loop E val [] ev st = (Returns ev, st)"
| "encode_cell_loop E val (ent # rest) ev st =
     (let tok = get_token_hash E (slice val (start ent) (end_pos ent)) (entity_type ent)
      in case then_do (call_encrypt E (slice val (start ent) (end_pos ent)) st)
                (\<lambda>encrypted_val st1. store_mapping E tok encrypted_val st1) of
           (Returns _, st2) \<Rightarrow>
             encode_cell_loop E val rest (take (start ent) ev @ tok @ drop (end_pos ent) ev) st2
         | (Raises, st2) \<Rightarrow> (Raises, st2)
         | (Hangs, st2) \<Rightarrow> (Hangs, st2))"

definition encode_cell :: "env \<Rightarrow> 'a cell \<Rightarrow> state \<Rightarrow> 'a cell outcome \<times> state" where
  "encode_cell E c st =
     (case c of
        Str val \<Rightarrow>
          then_do (detect_pii E val st) (\<lambda>entities s.
            if entities \<noteq> [] then
              then_do (encode_cell_loop E val (sort_by_start_desc entities) val s)
                (\<lambda>ev s'. (Returns (Str ev), s'))
            else (Returns (Str val), s))
      | Other x \<Rightarrow> (Returns (Other x), st))"

fun encode_row ::
  "env \<Rightarrow> 'a cell list \<Rightarrow> 'a cell list \<Rightarrow> state \<Rightarrow> 'a cell list outcome \<times> state" where
  "encode_row E [] encoded_row st = (Returns encoded_row, st)"
| "encode_row E (val # rest) encoded_row st =
     (case encode_cell E val st of
        (Returns c, s) \<Rightarrow> encode_row E rest (encoded_row @ [c]) s
      | (Raises, s) \<Rightarrow> (Raises, s)
      | (Hangs, s) \<Rightarrow> (Hangs, s))"

fun encode_rows ::
  "env \<Rightarrow> 'a cell list list \<Rightarrow> 'a cell list list \<Rightarrow> state \<Rightarrow> 'a cell list list outcome \<times> state" where
  "encode_rows E [] encoded_rows st = (Returns encoded_rows, st)"
| "encode_rows E (row # rest) encoded_rows st =
     (case encode_row E row [] st of
        (Returns encoded_row, s) \<Rightarrow> encode_rows E rest (encoded_rows @ [encoded_row]) s
      | (Raises, s) \<Rightarrow> (Raises, s)
      | (Hangs, s) \<Rightarrow> (Hangs, s))"

definition encode_results ::
  "env \<Rightarrow> string list \<Rightarrow> 'a cell list list \<Rightarrow> state \<Rightarrow> 'a cell list list outcome \<times> state" where
  "encode_results E columns rows st = encode_rows E rows [] st"

subsection \<open>The decoder\<close>

definition falsy :: "string option \<Rightarrow> bool" where
  \<comment> \<open>\<^verbatim>\<open>not encrypted_val\<close>: \<^verbatim>\<open>None\<close> or the empty string\<close>
  "falsy v \<longleftrightarrow> v = None \<or> v = Some []"

definition back_fill :: "string \<Rightarrow> string option \<Rightarrow> state \<Rightarrow> state" where
  \<comment> \<open>\<^verbatim>\<open>if encrypted_val: _token_store[token] = encrypted_val\<close>\<close>
  "back_fill tok v st =
     (case v of
        None \<Rightarrow> st
      | Some c \<Rightarrow> if c = [] then st else st\<lparr>token_store := (token_store st)(tok \<mapsto> c)\<rparr>)"

definition lookup_token :: "env \<Rightarrow> string \<Rightarrow> state \<Rightarrow> string option outcome \<times> state" where
  \<comment> \<open>the three-tier lookup at the head of the decoding loop\<close>
  "lookup_token E tok st =
     then_do
       (if falsy (token_store st tok) \<and> is_connected st then
          then_do (get_pii_mapping E tok st) (\<lambda>v s. (Returns v, back_fill tok v s))
        else (Returns (token_store st tok), st))
       (\<lambda>v1 s1.
          if falsy v1 then
            then_do (get_persisted_token E tok s1) (\<lambda>v s. (Returns v, back_fill tok v s))
          else (Returns v1, s1))"

definition call_decrypt :: "env \<Rightarrow> string \<Rightarrow> state \<Rightarrow> string outcome \<times> state" where
  "call_decrypt E c st =
     (case decrypt_value E c of Some v \<Rightarrow> (Returns v, st) | None \<Rightarrow> (Raises, st))"

fun decode_loop :: "env \<Rightarrow> string list \<Rightarrow> string \<Rightarrow> state \<Rightarrow> string outcome \<times> state" where
  "decode_loop E [] decoded_text st = (Returns decoded_text, st)"
| "decode_loop E (tok # rest) decoded_text st =
     (case lookup_token E tok st of
        (Returns encrypted_val, st1) \<Rightarrow>
          (if \<not> falsy encrypted_val then
             (case try_except
                     (then_do (call_decrypt E (the encrypted_val) st1) (\<lambda>original_val s.
                        (Returns (str_replace decoded_text tok original_val), s)))
                     (\<lambda>s. (Returns decoded_text, s)) of
                (Returns d, st2) \<Rightarrow> decode_loop E rest d st2
              | (Raises, st2) \<Rightarrow> (Raises, st2)
              | (Hangs, st2) \<Rightarrow> (Hangs, st2))
           else decode_loop E rest decoded_text st1)
      | (Raises, st1) \<Rightarrow> (Raises, st1)
      | (Hangs, st1) \<Rightarrow> (Hangs, st1))"

definition set_iteration :: "env \<Rightarrow> string list \<Rightarrow> string list" where
  \<comment> \<open>\<^verbatim>\<open>for token in set(tokens_found)\<close>: each distinct element once, in an order the
      environment fixes\<close>
  "set_iteration E xs = sort_key (hash_order E) (remdups xs)"

definition decode_text :: "env \<Rightarrow> string \<Rightarrow> state \<Rightarrow> string outcome \<times> state" where
  "decode_text E text st = decode_loop E (set_iteration E (tokens_found text)) text st"

definition decode_cell :: "env \<Rightarrow> 'a cell \<Rightarrow> state \<Rightarrow> 'a cell outcome \<times> state" where
  "decode_cell E c st =
     (case c of
        Str val \<Rightarrow> then_do (decode_text E val st) (\<lambda>d s. (Returns (Str d), s))
      | Other x \<Rightarrow> (Returns (Other x), st))"

fun decode_row ::
  "env \<Rightarrow> 'a cell list \<Rightarrow> 'a cell list \<Rightarrow> state \<Rightarrow> 'a cell list outcome \<times> state" where
  "decode_row E [] decoded_row st = (Returns decoded_row, st)"
| "decode_row E (val # rest) decoded_row st =
     (case decode_cell E val st of
        (Returns c, s) \<Rightarrow> decode_row E rest (decoded_row @ [c]) s
      | (Raises, s) \<Rightarrow> (Raises, s)
      | (Hangs, s) \<Rightarrow> (Hangs, s))"

fun decode_rows ::
  "env \<Rightarrow> 'a cell list list \<Rightarrow> 'a cell list list \<Rightarrow> state \<Rightarrow> 'a cell list list outcome \<times> state" where
  "decode_rows E [] decoded_rows st = (Returns decoded_rows, st)"
| "decode_rows E (row # rest) decoded_rows st =
     (case decode_row E row [] st of
        (Returns decoded_row, s) \<Rightarrow> decode_rows E rest (decoded_rows @ [decoded_row]) s
      | (Raises, s) \<Rightarrow> (Raises, s)
      | (Hangs, s) \<Rightarrow> (Hangs, s))"

fun decode_item ::
  "env \<Rightarrow> (string \<times> 'a cell) list \<Rightarrow> (string \<times> 'a cell) list \<Rightarrow> state \<Rightarrow>
     (string \<times> 'a cell) list outcome \<times> state" where
  "decode_item E [] decoded_item st = (Returns decoded_item, st)"
| "decode_item E ((k, v) # rest) decoded_item st =
     (case decode_cell E v st of
        (Returns c, s) \<Rightarrow> decode_item E rest (decoded_item @ [(k, c)]) s
      | (Raises, s) \<Rightarrow> (Raises, s)
      | (Hangs, s) \<Rightarrow> (Hangs, s))"

fun decode_items ::
  "env \<Rightarrow> (string \<times> 'a cell) list list \<Rightarrow> (string \<times> 'a cell) list list \<Rightarrow> state \<Rightarrow>
     (string \<times> 'a cell) list list outcome \<times> state" where
  "decode_items E [] decoded_list st = (Returns decoded_list, st)"
| "decode_items E (item # rest) decoded_list st =
     (case decode_item E item [] st of
        (Returns decoded_item, s) \<Rightarrow> decode_items E rest (decoded_list @ [decoded_item]) s
      | (Raises, s) \<Rightarrow> (Raises, s)
      | (Hangs, s) \<Rightarrow> (Hangs, s))"

fun decode_results :: "env \<Rightarrow> 'a result \<Rightarrow> state \<Rightarrow> 'a result outcome \<times> state" where
  "decode_results E No_result st = (Returns No_result, st)"
| "decode_results E (Table others rows) st =
     then_do (decode_rows E rows [] st) (\<lambda>decoded_rows s. (Returns (Table others decoded_rows), s))"
| "decode_results E (Dict_rows items) st =
     (if items \<noteq> [] then
        then_do (decode_items E items [] st) (\<lambda>decoded_list s. (Returns (Dict_rows decoded_list), s))
      else (Returns (Dict_rows items), st))"
| "decode_results E (List_rows rows) st =
     (if rows \<noteq> [] then
        then_do (decode_rows E rows [] st) (\<lambda>decoded_list s. (Returns (List_rows decoded_list), s))
      else (Returns (List_rows rows), st))"
| "decode_results E (Opaque x) st = (Returns (Opaque x), st)"


subsection \<open>Notions used to state the properties\<close>

definition found_in_slower_tier :: "env \<Rightarrow> string \<Rightarrow> state \<Rightarrow> string \<Rightarrow> bool" where
  \<comment> \<open>the external cache answers with \<open>c\<close>, or it is not asked or answers with nothing and
      the token file gives \<open>c\<close>\<close>
  "found_in_slower_tier E tok st c \<longleftrightarrow>
     (is_connected st \<and> (\<exists>st1. get_pii_mapping E tok st = (Returns (Some c), st1))) \<or>
     (is_connected st \<and>
        (\<exists>v st1 st2. get_pii_mapping E tok st = (Returns v, st1) \<and> falsy v \<and>
           get_persisted_token E tok st1 = (Returns (Some c), st2))) \<or>
     (\<not> is_connected st \<and> (\<exists>st2. get_persisted_token E tok st = (Returns (Some c), st2)))"

fun detect_all :: "env \<Rightarrow> string list \<Rightarrow> state \<Rightarrow> span list outcome list" where
  \<comment> \<open>the results of successive calls of \<open>detect_pii\<close>\<close>
  "detect_all E [] st = []"
| "detect_all E (text # texts) st =
     (case detect_pii E text st of (r, st') \<Rightarrow> r # detect_all E texts st')"

definition file_dict :: "state \<Rightarrow> string \<rightharpoonup> string" where
  \<comment> \<open>the mappings the token file holds, none when it is missing or is not a JSON object\<close>
  "file_dict st = (case token_file st of Dict m \<Rightarrow> m | _ \<Rightarrow> Map.empty)"

definition tier_values :: "string \<Rightarrow> state \<Rightarrow> string list" where
  \<comment> \<open>what the three tiers hold for a token\<close>
  "tier_values tok st =
     List.map_filter (\<lambda>x. x)
       [token_store st tok, map_option fst (redis st (''pii:'' @ tok)), file_dict st tok]"

definition undecodable :: "env \<Rightarrow> string \<Rightarrow> state \<Rightarrow> bool" where
  \<comment> \<open>no tier holds a value for the token, or what a tier holds is empty or fails to decrypt\<close>
  "undecodable E tok st \<longleftrightarrow> (\<forall>c \<in> set (tier_values tok st). c = [] \<or> decrypt_value E c = None)"

definition apply_replacements :: "(string \<times> string) list \<Rightarrow> string \<Rightarrow> string" where
  \<comment> \<open>a sequence of \<^verbatim>\<open>str.replace\<close> calls, each of a token by a value\<close>
  "apply_replacements reps s = fold (\<lambda>(t, v) d. str_replace d t v) reps s"

subsection \<open>A concrete environment and concrete states\<close>

text \<open>
  Used to run the definitions on explicit inputs. The digests are the SHA-256 digests of
  the five strings, byte by byte; the matches of the two patterns on the twelve-digit number are the
  ones the source's regular expressions give.
\<close>

definition sample_sha256 :: "string \<Rightarrow> nat list" where
  "sample_sha256 v =
     (if v = ''1234 5678 9012'' then
        [72, 212, 154, 95, 169, 14, 16, 5, 232, 80, 228, 18, 210, 25, 72, 63, 3,
         210, 177, 139, 182, 176, 78, 125, 200, 224, 36, 239, 27, 216, 8, 71]
      else if v = ''John Smith'' then
        [239, 97, 165, 121, 201, 7, 187, 237, 103, 76, 13, 188, 188, 247, 247, 175,
         143, 133, 21, 56, 238, 247, 184, 229, 140, 91, 238, 11, 140, 253, 172, 74]
      else if v = ''john.smith@example.com'' then
        [142, 98, 30, 61, 3, 104, 99, 29, 38, 61, 7, 163, 81, 250, 141, 52, 251,
         160, 209, 124, 21, 251, 205, 236, 17, 165, 245, 128, 8, 208, 34, 160]
      else if v = ''Jane Doe'' then
        [1, 51, 44, 135, 101, 24, 167, 147, 183, 193, 184, 223, 175, 109, 75, 64,
         79, 245, 219, 9, 178, 28, 102, 39, 202, 89, 113, 12, 194, 79, 105, 106]
      else if v = ''jane@x.com'' then
        [35, 255, 168, 166, 207, 118, 75, 151, 193, 141, 77, 201, 37, 245, 116, 242,
         208, 17, 63, 192, 199, 250, 17, 54, 155, 253, 178, 46, 123, 118, 43, 254]
      else replicate 32 0)"

definition sample_finditer :: "pattern \<Rightarrow> string \<Rightarrow> (nat \<times> nat) list" where
  "sample_finditer pat text =
     (if text = ''1234 5678 9012'' \<and> (pat = Phone_pattern \<or> pat = Aadhaar_pattern) then [(0, 14)]
      else if text = ''Jane Doe'' \<and> pat = Person_pattern then [(0, 8)]
      else if text = ''jane@x.com'' \<and> pat = Email_pattern then [(0, 10)]
      else [])"

definition sample_analyze :: "nat \<Rightarrow> string \<Rightarrow> span list option" where
  "sample_analyze t text =
     (if text = ''Contact John Smith at john.smith@example.com'' then
        Some [\<lparr>entity_type = ''PERSON'', start = 8, end_pos = 18, score = 17 / 20\<rparr>,
              \<lparr>entity_type = ''EMAIL_ADDRESS'', start = 22, end_pos = 44, score = 1\<rparr>]
      else Some [])"

definition sample_env :: env where
  "sample_env =
     \<lparr>sha256 = sample_sha256,
      encrypt_value = (\<lambda>t v. ''gAAAAAB'' @ v),
      decrypt_value = (\<lambda>c. if take 7 c = ''gAAAAAB'' then Some (drop 7 c) else None),
      finditer = sample_finditer,
      engine_loads = (\<lambda>t. True),
      analyze = sample_analyze,
      redis_fails = (\<lambda>t. False),
      file_read_fails = (\<lambda>t. False),
      file_write = (\<lambda>t. Written),
      hash_order = length\<rparr>"

definition fresh_state :: "analyzer \<Rightarrow> bool \<Rightarrow> state" where
  \<comment> \<open>a process with empty stores, no token file, and the given analyzer and connection flag\<close>
  "fresh_state a c =
     \<lparr>analyzer = a, token_store = Map.empty, is_connected = c, redis = Map.empty,
      token_file = Absent, lock_held = False, clock = 0, trace = []\<rparr>"

definition redis_down_env :: env where
  "redis_down_env = sample_env\<lparr>redis_fails := (\<lambda>t. True)\<rparr>"

definition no_model_env :: env where
  "no_model_env = sample_env\<lparr>engine_loads := (\<lambda>t. False)\<rparr>"

definition failing_engine_env :: env where
  "failing_engine_env = sample_env\<lparr>analyze := (\<lambda>t text. None)\<rparr>"

definition stale_file_state :: state where
  "stale_file_state =
     (fresh_state Engine False)
       \<lparr>token_store := [''[PERSON_EF61A579]'' \<mapsto> ''gAAAAABJohn Smith''],
        token_file := Dict [''[PERSON_EF61A579]'' \<mapsto> ''gAAAAABJohn Smyth'']\<rparr>"

definition file_only_state :: state where
  "file_only_state =
     (fresh_state Engine False)
       \<lparr>token_file := Dict [''[PERSON_EF61A579]'' \<mapsto> ''gAAAAABJohn Smith'']\<rparr>"

definition one_mapping_state :: state where
  "one_mapping_state =
     (fresh_state Engine True)
       \<lparr>token_store := [''[PERSON_EF61A579]'' \<mapsto> ''gAAAAABJohn Smith'']\<rparr>"

section \<open>Properties\<close>

subsection \<open>The token grammar\<close>

lemma type_char_not_bracket: "type_char c \<Longrightarrow> c \<noteq> CHR ''['' \<and> c \<noteq> CHR '']''"
  by (auto simp: type_char_def)

lemma hex_char_not_bracket: "hex_char c \<Longrightarrow> c \<noteq> CHR ''['' \<and> c \<noteq> CHR '']''"
  by (auto simp: hex_char_def)

lemma is_token_fullmatch:
  assumes "is_token s"
  shows "fullmatch_token s"
proof -
  from assms obtain ty hx where s: "s = ''['' @ ty @ ''_'' @ hx @ '']''"
    and ty: "ty \<noteq> []" "list_all type_char ty" and hx: "length hx = 8" "list_all hex_char hx"
    by (auto simp: is_token_def)
  let ?r = "ty @ ''_'' @ hx @ '']''"
  have bl: "butlast ?r = ty @ ''_'' @ hx"
    by (simp add: butlast_append)
  have n: "length (ty @ ''_'' @ hx) = length ty + 9"
    using hx by simp
  have "ty \<noteq> []" by fact
  then have len: "1 \<le> length ty" by (cases ty) auto
  have d: "drop (length ty + 9 - 8) (ty @ ''_'' @ hx) = hx"
    by simp
  have t: "take (length ty + 9 - 9) (ty @ ''_'' @ hx) = ty"
    by simp
  have i: "(ty @ ''_'' @ hx) ! (length ty + 9 - 9) = CHR ''_''"
    by (simp add: nth_append)
  have l: "last ?r = CHR '']''" by simp
  show ?thesis
    unfolding fullmatch_token_def s
    using bl n d t i l ty hx len
    by (simp add: Let_def)
qed

lemma fullmatch_is_token:
  assumes "fullmatch_token s"
  shows "is_token s"
proof -
  from assms obtain c r where s: "s = c # r" by (cases s) (auto simp: fullmatch_token_def)
  define body where "body = butlast r"
  define n where "n = length body"
  define ty where "ty = take (n - 9) body"
  define hx where "hx = drop (n - 8) body"
  from assms have c: "c = CHR ''[''" and r: "r \<noteq> []" and l: "last r = CHR '']''"
    and n: "10 \<le> n" and hx: "list_all hex_char hx"
    and u: "body ! (n - 9) = CHR ''_''" and ty: "list_all type_char ty"
    by (auto simp: fullmatch_token_def s Let_def body_def n_def ty_def hx_def)
  have "n - 9 < length body" using n by (simp add: n_def)
  then have "body = take (n - 9) body @ body ! (n - 9) # drop (Suc (n - 9)) body"
    by (rule id_take_nth_drop)
  moreover have "Suc (n - 9) = n - 8" using n by arith
  ultimately have b: "body = ty @ ''_'' @ hx"
    using u by (simp add: ty_def hx_def)
  have "butlast r @ [last r] = r" using r by simp
  then have "r = body @ '']''" using l by (simp add: body_def)
  then have "s = ''['' @ ty @ ''_'' @ hx @ '']''"
    using b c s by simp
  moreover have "length ty = n - 9" by (simp add: ty_def n_def)
  then have "ty \<noteq> []" using n by auto
  moreover have "length hx = 8" using n by (simp add: hx_def n_def)
  ultimately show ?thesis
    unfolding is_token_def using ty hx by blast
qed

lemma fullmatch_token_iff: "fullmatch_token s \<longleftrightarrow> is_token s"
  using is_token_fullmatch fullmatch_is_token by blast

lemma is_token_shaped:
  assumes "is_token s"
  shows "token_shaped s"
proof -
  from assms obtain ty hx where s: "s = ''['' @ ty @ ''_'' @ hx @ '']''"
    and ty: "list_all type_char ty" and hx: "list_all hex_char hx"
    by (auto simp: is_token_def)
  have "CHR ''['' \<notin> set (ty @ ''_'' @ hx) \<and> CHR '']'' \<notin> set (ty @ ''_'' @ hx)"
    using ty hx type_char_not_bracket hex_char_not_bracket
    by (auto simp: list_all_iff)
  moreover have "s = CHR ''['' # (ty @ ''_'' @ hx) @ '']''" using s by simp
  ultimately show ?thesis unfolding token_shaped_def by blast
qed

lemma fullmatch_token_shaped: "fullmatch_token s \<Longrightarrow> token_shaped s"
  by (simp add: fullmatch_token_iff is_token_shaped)

lemma match_token_Some:
  assumes "match_token s = Some t"
  shows "fullmatch_token t \<and> prefix t s"
proof -
  from assms obtain c r where s: "s = c # r" by (cases s) (auto simp: match_token_def)
  define body where "body = takeWhile (\<lambda>x. x \<noteq> CHR '']'') r"
  define rest where "rest = dropWhile (\<lambda>x. x \<noteq> CHR '']'') r"
  from assms have t: "t = c # body @ '']''" and len: "length body < length r"
    and fm: "fullmatch_token (c # body @ '']'')"
    by (auto simp: match_token_def s Let_def body_def split: if_splits)
  have r: "r = body @ rest" by (simp add: body_def rest_def)
  with len have ne: "rest \<noteq> []" by auto
  then have "hd rest = CHR '']''"
    unfolding rest_def using hd_dropWhile [of "\<lambda>x. x \<noteq> CHR '']''" r] by simp
  with ne have "rest = CHR '']'' # tl rest" by (cases rest) auto
  with r have "s = t @ tl rest" by (simp add: s t)
  then have "prefix t s" by (simp add: prefix_def)
  with fm t show ?thesis by simp
qed

lemma match_token_shaped:
  assumes "token_shaped t"
  shows "match_token (t @ b) = (if fullmatch_token t then Some t else None)"
proof -
  from assms obtain body where t: "t = CHR ''['' # body @ '']''"
    and nb: "CHR '']'' \<notin> set body"
    by (auto simp: token_shaped_def)
  have tw: "takeWhile (\<lambda>x. x \<noteq> CHR '']'') (body @ '']'' @ b) = body"
    using nb by (induction body) auto
  show ?thesis
    unfolding match_token_def t using tw by (simp add: Let_def)
qed

lemma match_token_fullmatch: "fullmatch_token t \<Longrightarrow> match_token (t @ b) = Some t"
  using match_token_shaped [OF fullmatch_token_shaped] by simp

lemma tokens_found_sound:
  "t \<in> set (tokens_found s) \<Longrightarrow> fullmatch_token t \<and> (\<exists>a b. s = a @ t @ b)"
proof (induction s rule: tokens_found.induct)
  case 1
  then show ?case by simp
next
  case (2 c cs)
  show ?case
  proof (cases "match_token (c # cs)")
    case None
    with 2 have "fullmatch_token t \<and> (\<exists>a b. cs = a @ t @ b)" by simp
    then obtain a b where "fullmatch_token t" "cs = a @ t @ b" by blast
    then have "c # cs = (c # a) @ t @ b" by simp
    with \<open>fullmatch_token t\<close> show ?thesis by blast
  next
    case (Some u)
    then have u: "fullmatch_token u" "prefix u (c # cs)" using match_token_Some by auto
    from 2(3) Some have "t = u \<or> t \<in> set (tokens_found (drop (length u - 1) cs))" by simp
    then show ?thesis
    proof
      assume "t = u"
      with u show ?thesis by (auto simp: prefix_def intro: exI [of _ "[]"])
    next
      assume "t \<in> set (tokens_found (drop (length u - 1) cs))"
      then have "fullmatch_token t \<and> (\<exists>a b. drop (length u - 1) cs = a @ t @ b)"
        by (rule 2(2) [OF Some])
      then obtain a b where ft: "fullmatch_token t" and d: "drop (length u - 1) cs = a @ t @ b" by blast
      have "cs = take (length u - 1) cs @ a @ t @ b"
        by (simp only: d [symmetric] append_take_drop_id)
      then have "c # cs = ((c # take (length u - 1) cs) @ a) @ t @ b" by simp
      with ft show ?thesis by blast
    qed
  qed
qed

lemma tokens_found_complete:
  "s = a @ t @ b \<Longrightarrow> fullmatch_token t \<Longrightarrow> tokens_found s \<noteq> []"
proof (induction a arbitrary: s)
  case Nil
  then have "match_token s = Some t" using match_token_fullmatch by simp
  moreover from Nil have "s \<noteq> []" by (auto simp: fullmatch_token_def)
  ultimately show ?case by (cases s) auto
next
  case (Cons c a)
  then have "tokens_found (a @ t @ b) \<noteq> []" by simp
  with Cons show ?case by (auto split: option.splits)
qed

lemma token_free_iff: "token_free s \<longleftrightarrow> tokens_found s = []"
proof
  assume tf: "token_free s"
  show "tokens_found s = []"
  proof (rule ccontr)
    assume "tokens_found s \<noteq> []"
    then obtain t where "t \<in> set (tokens_found s)" by (cases "tokens_found s") auto
    then show False using tokens_found_sound tf unfolding token_free_def by blast
  qed
next
  assume "tokens_found s = []"
  then show "token_free s"
    unfolding token_free_def using tokens_found_complete by blast
qed

subsection \<open>The format of tokens\<close>

lemma hexdigest_bytes:
  obtains bs where "length bs = 32"
    and "hexdigest E v = concat (map (\<lambda>b. [hex_digit (b div 16 mod 16), hex_digit (b mod 16)]) bs)"
proof -
  define bs where "bs = take 32 (sha256 E v @ replicate 32 0)"
  have "length bs = 32" by (simp add: bs_def)
  moreover have "hexdigest E v =
      concat (map (\<lambda>b. [hex_digit (b div 16 mod 16), hex_digit (b mod 16)]) bs)"
    by (simp only: hexdigest_def bs_def)
  ultimately show ?thesis by (rule that)
qed

lemma length_concat_pairs: "length (concat (map (\<lambda>b. [f b, g b]) xs)) = 2 * length xs"
  by (induction xs) auto

lemma hexdigest_length: "length (hexdigest E v) = 64"
proof -
  obtain bs where "length bs = 32"
    and "hexdigest E v = concat (map (\<lambda>b. [hex_digit (b div 16 mod 16), hex_digit (b mod 16)]) bs)"
    by (rule hexdigest_bytes)
  then show ?thesis by (simp add: length_concat_pairs)
qed

lemma hex_digit_lower: "lower_hex_char (hex_digit (n mod 16))"
proof -
  have "n mod 16 < length ''0123456789abcdef''" by simp
  then have "''0123456789abcdef'' ! (n mod 16) \<in> set ''0123456789abcdef''"
    by (rule nth_mem)
  then show ?thesis by (simp only: lower_hex_char_def hex_digit_def)
qed

lemma hexdigest_chars: "c \<in> set (hexdigest E v) \<Longrightarrow> lower_hex_char c"
proof -
  assume c: "c \<in> set (hexdigest E v)"
  obtain bs where
    "hexdigest E v = concat (map (\<lambda>b. [hex_digit (b div 16 mod 16), hex_digit (b mod 16)]) bs)"
    by (rule hexdigest_bytes)
  with c obtain b where "c = hex_digit (b div 16 mod 16) \<or> c = hex_digit (b mod 16)"
    by auto
  then show ?thesis using hex_digit_lower by blast
qed

lemma char_upper_hex: "lower_hex_char c \<Longrightarrow> hex_char (char_upper c)"
  unfolding lower_hex_char_def by (elim disjE | simp add: hex_char_def char_upper_def)+

lemma short_hash_hex:
  "length (upper (take 8 (hexdigest E v))) = 8 \<and> list_all hex_char (upper (take 8 (hexdigest E v)))"
proof -
  have "length (upper (take 8 (hexdigest E v))) = 8"
    by (simp add: upper_def hexdigest_length)
  moreover have "hex_char c" if "c \<in> set (upper (take 8 (hexdigest E v)))" for c
  proof -
    from that obtain d where d: "d \<in> set (take 8 (hexdigest E v))" and c: "c = char_upper d"
      by (auto simp: upper_def)
    from d have "d \<in> set (hexdigest E v)" by (rule in_set_takeD)
    then show ?thesis using c char_upper_hex hexdigest_chars by blast
  qed
  ultimately show ?thesis by (simp add: list_all_iff)
qed

lemma get_token_hash_fullmatch:
  assumes "ety \<noteq> []" and "list_all type_char ety"
  shows "fullmatch_token (get_token_hash E v ety)"
proof -
  have "is_token (get_token_hash E v ety)"
    unfolding is_token_def get_token_hash_def Let_def
    using assms short_hash_hex [of E v] by blast
  then show ?thesis by (simp add: fullmatch_token_iff)
qed

lemma PII_ENTITIES_type_chars:
  "ety \<in> set PII_ENTITIES \<Longrightarrow> ety \<noteq> [] \<and> list_all type_char ety"
  by (auto simp: PII_ENTITIES_def type_char_def)

text \<open>
  C5: for every value and every entity type of \<open>PII_ENTITIES\<close>, the token that
  \<open>get_token_hash\<close> builds matches the token pattern: a bracket, the entity type, an
  underscore, eight upper-case hexadecimal digits taken from the digest of the value, a
  bracket.
\<close>

theorem get_token_hash_format:
  "ety \<in> set PII_ENTITIES \<Longrightarrow> fullmatch_token (get_token_hash E v ety)"
  using PII_ENTITIES_type_chars get_token_hash_fullmatch by blast

theorem get_token_hash_format_witness:
  "''EMAIL_ADDRESS'' \<in> set PII_ENTITIES \<and>
   fullmatch_token (get_token_hash sample_env ''john.smith@example.com'' ''EMAIL_ADDRESS'') \<and>
   get_token_hash sample_env ''john.smith@example.com'' ''EMAIL_ADDRESS'' = ''[EMAIL_ADDRESS_8E621E3D]''"
proof -
  have m: "''EMAIL_ADDRESS'' \<in> set PII_ENTITIES" by (simp add: PII_ENTITIES_def)
  have "get_token_hash sample_env ''john.smith@example.com'' ''EMAIL_ADDRESS'' = ''[EMAIL_ADDRESS_8E621E3D]''"
    by (simp add: get_token_hash_def hexdigest_def sample_env_def sample_sha256_def upper_def
        char_upper_def hex_digit_def)
  with m get_token_hash_format [OF m, of sample_env "''john.smith@example.com''"] show ?thesis by simp
qed

subsection \<open>Decoding text without tokens\<close>

lemma set_iteration_Nil: "set_iteration E [] = []"
  by (simp add: set_iteration_def)

text \<open>
  C10: on a text with no substring that matches the token pattern, \<open>decode_text\<close> returns
  the text itself and leaves every tier of the store as it was, whatever the tiers hold.
\<close>

theorem decode_text_token_free:
  "token_free text \<Longrightarrow> decode_text E text st = (Returns text, st)"
  by (simp add: decode_text_def token_free_iff set_iteration_Nil)

theorem decode_text_token_free_witness:
  "token_free ''show orders of [2024] by region'' \<and>
   decode_text sample_env ''show orders of [2024] by region'' (fresh_state Engine True) =
     (Returns ''show orders of [2024] by region'', fresh_state Engine True)"
proof -
  have tf: "token_free ''show orders of [2024] by region''"
    by (simp add: token_free_iff match_token_def fullmatch_token_def Let_def)
  from tf decode_text_token_free [OF tf] show ?thesis by blast
qed

subsection \<open>The store\<close>

lemmas outcome_defs = then_do_def try_except_def tick_def emit_def

lemma load_token_file_absent:
  "token_file st = Absent \<Longrightarrow> load_token_file E st = (Returns Map.empty, emit File_exists st)"
  by (simp add: load_token_file_def path_exists_def outcome_defs)

lemma load_token_file_held:
  "token_file st \<noteq> Absent \<Longrightarrow> lock_held st \<Longrightarrow>
     load_token_file E st = (Hangs, emit File_exists st)"
  by (cases "token_file st")
     (simp_all add: load_token_file_def path_exists_def with_lock_def acquire_def outcome_defs)

lemma load_token_file_free:
  "token_file st \<noteq> Absent \<Longrightarrow> \<not> lock_held st \<Longrightarrow>
     load_token_file E st =
       (Returns (if file_read_fails E (clock st) then Map.empty
                 else case token_file st of Dict m \<Rightarrow> m | _ \<Rightarrow> Map.empty),
        st\<lparr>clock := Suc (clock st), trace := trace st @ [File_exists, File_read]\<rparr>)"
  by (cases "token_file st")
     (simp_all add: load_token_file_def path_exists_def with_lock_def acquire_def read_json_def
        outcome_defs Let_def)

lemma persist_token_absent:
  "token_file st = Absent \<Longrightarrow> \<not> lock_held st \<Longrightarrow>
     persist_token E tok v st =
       (Returns (),
        st\<lparr>token_file :=
              (case file_write E (clock st) of
                 Written \<Rightarrow> Dict [tok \<mapsto> v]
               | Open_fails \<Rightarrow> Absent
               | Dump_fails \<Rightarrow> Unparsable),
            clock := Suc (clock st), trace := trace st @ [File_exists, File_write]\<rparr>)"
  by (cases "file_write E (clock st)")
     (simp_all add: persist_token_def load_token_file_def path_exists_def with_lock_def
        acquire_def write_json_def outcome_defs Let_def)

lemma persist_token_present:
  "token_file st \<noteq> Absent \<Longrightarrow> \<not> lock_held st \<Longrightarrow>
     persist_token E tok v st =
       (Hangs, st\<lparr>lock_held := True, trace := trace st @ [File_exists]\<rparr>)"
  by (cases "token_file st")
     (simp_all add: persist_token_def load_token_file_def path_exists_def with_lock_def
        acquire_def outcome_defs Let_def)

lemma set_pii_mapping_connected:
  "is_connected st \<Longrightarrow>
     set_pii_mapping E tok v ttl st =
       (Returns (\<not> redis_fails E (clock st)),
        st\<lparr>redis := (if redis_fails E (clock st) then redis st
                       else (redis st)(''pii:'' @ tok \<mapsto> (v, ttl))),
            clock := Suc (clock st),
            trace := trace st @ [Redis_setex (''pii:'' @ tok) ttl v]\<rparr>)"
  by (simp add: set_pii_mapping_def client_setex_def outcome_defs Let_def)

lemma get_pii_mapping_connected:
  "is_connected st \<Longrightarrow>
     get_pii_mapping E tok st =
       (Returns (if redis_fails E (clock st) then None
                 else map_option fst (redis st (''pii:'' @ tok))),
        st\<lparr>clock := Suc (clock st), trace := trace st @ [Redis_get (''pii:'' @ tok)]\<rparr>)"
  by (simp add: get_pii_mapping_def client_get_def outcome_defs Let_def)

lemma get_persisted_token_free:
  "\<not> lock_held st \<Longrightarrow> \<exists>v st'. get_persisted_token E tok st = (Returns v, st')"
  by (cases "token_file st = Absent")
     (simp_all add: get_persisted_token_def load_token_file_absent load_token_file_free then_do_def)

lemma store_mapping_connected:
  "is_connected st \<Longrightarrow>
     store_mapping E tok v st =
       (Returns (),
        st\<lparr>token_store := (token_store st)(tok \<mapsto> v),
            redis := (if redis_fails E (clock st) then redis st
                      else (redis st)(''pii:'' @ tok \<mapsto> (v, PII_TTL_SECONDS))),
            clock := Suc (clock st),
            trace := trace st @ [Redis_setex (''pii:'' @ tok) PII_TTL_SECONDS v]\<rparr>)"
  by (simp add: store_mapping_def set_pii_mapping_connected then_do_def Let_def)

lemma store_mapping_file:
  "\<not> is_connected st \<Longrightarrow> token_file st = Absent \<Longrightarrow> \<not> lock_held st \<Longrightarrow>
     store_mapping E tok v st =
       (Returns (),
        st\<lparr>token_store := (token_store st)(tok \<mapsto> v),
            token_file :=
              (case file_write E (clock st) of
                 Written \<Rightarrow> Dict [tok \<mapsto> v]
               | Open_fails \<Rightarrow> Absent
               | Dump_fails \<Rightarrow> Unparsable),
            clock := Suc (clock st), trace := trace st @ [File_exists, File_write]\<rparr>)"
  by (simp add: store_mapping_def persist_token_absent Let_def)

lemma store_mapping_deadlock:
  "\<not> is_connected st \<Longrightarrow> token_file st \<noteq> Absent \<Longrightarrow> \<not> lock_held st \<Longrightarrow>
     fst (store_mapping E tok v st) = Hangs"
  by (simp add: store_mapping_def persist_token_present Let_def)

lemma store_mapping_token_store:
  "\<not> lock_held st \<Longrightarrow> token_store (snd (store_mapping E tok v st)) = (token_store st)(tok \<mapsto> v)"
proof (cases "is_connected st")
  case True
  then show ?thesis by (simp add: store_mapping_connected)
next
  case False
  assume "\<not> lock_held st"
  with False show ?thesis
    by (cases "token_file st = Absent")
       (simp_all add: store_mapping_def persist_token_present persist_token_absent Let_def)
qed

text \<open>
  C7 (amended): the in-process cache is always written. When the connection flag that the
  Redis client set at construction is on, one \<open>SETEX\<close> with the TTL of 86400 seconds is sent
  (it takes effect unless the command fails, and a failure is swallowed), the token file is
  not touched, and the call returns. When the flag is off and no token file exists yet, the
  server is not touched, the file is written on a best-effort basis (a failed write is
  swallowed), and the call returns.
\<close>

theorem store_mapping_routing:
  "(\<not> lock_held st \<longrightarrow>
      token_store (snd (store_mapping E tok v st)) = (token_store st)(tok \<mapsto> v)) \<and>
   (is_connected st \<longrightarrow>
      store_mapping E tok v st =
        (Returns (),
         st\<lparr>token_store := (token_store st)(tok \<mapsto> v),
             redis := (if redis_fails E (clock st) then redis st
                       else (redis st)(''pii:'' @ tok \<mapsto> (v, PII_TTL_SECONDS))),
             clock := Suc (clock st),
             trace := trace st @ [Redis_setex (''pii:'' @ tok) PII_TTL_SECONDS v]\<rparr>)) \<and>
   (\<not> is_connected st \<and> token_file st = Absent \<and> \<not> lock_held st \<longrightarrow>
      store_mapping E tok v st =
        (Returns (),
         st\<lparr>token_store := (token_store st)(tok \<mapsto> v),
             token_file :=
               (case file_write E (clock st) of
                  Written \<Rightarrow> Dict [tok \<mapsto> v]
                | Open_fails \<Rightarrow> Absent
                | Dump_fails \<Rightarrow> Unparsable),
             clock := Suc (clock st), trace := trace st @ [File_exists, File_write]\<rparr>))"
  using store_mapping_token_store store_mapping_connected store_mapping_file by blast

text \<open>
  The connection flag is on but the server no longer answers: the mapping reaches neither
  the external tier nor the token file.
\<close>

theorem store_mapping_unreachable_counterexample:
  "is_connected (fresh_state Engine True) \<and>
   fst (store_mapping redis_down_env ''[PERSON_EF61A579]'' ''gAAAAABJohn Smith'' (fresh_state Engine True))
     = Returns () \<and>
   redis (snd (store_mapping redis_down_env ''[PERSON_EF61A579]'' ''gAAAAABJohn Smith''
     (fresh_state Engine True))) ''pii:[PERSON_EF61A579]'' = None \<and>
   token_file (snd (store_mapping redis_down_env ''[PERSON_EF61A579]'' ''gAAAAABJohn Smith''
     (fresh_state Engine True))) = Absent"
  by (simp add: store_mapping_connected fresh_state_def redis_down_env_def sample_env_def)

theorem store_mapping_routing_witness:
  "store_mapping sample_env ''[PERSON_EF61A579]'' ''gAAAAABJohn Smith'' (fresh_state Engine True) =
     (Returns (),
      (fresh_state Engine True)
        \<lparr>token_store := [''[PERSON_EF61A579]'' \<mapsto> ''gAAAAABJohn Smith''],
         redis := [''pii:[PERSON_EF61A579]'' \<mapsto> (''gAAAAABJohn Smith'', 86400)],
         clock := 1,
         trace := [Redis_setex ''pii:[PERSON_EF61A579]'' 86400 ''gAAAAABJohn Smith'']\<rparr>) \<and>
   store_mapping sample_env ''[PERSON_EF61A579]'' ''gAAAAABJohn Smith'' (fresh_state Engine False) =
     (Returns (),
      (fresh_state Engine False)
        \<lparr>token_store := [''[PERSON_EF61A579]'' \<mapsto> ''gAAAAABJohn Smith''],
         token_file := Dict [''[PERSON_EF61A579]'' \<mapsto> ''gAAAAABJohn Smith''],
         clock := 1,
         trace := [File_exists, File_write]\<rparr>)"
proof -
  have c: "is_connected (fresh_state Engine True)" by (simp add: fresh_state_def)
  have f: "\<not> is_connected (fresh_state Engine False) \<and> token_file (fresh_state Engine False) = Absent
      \<and> \<not> lock_held (fresh_state Engine False)"
    by (simp add: fresh_state_def)
  from c store_mapping_routing [of "fresh_state Engine True" sample_env "''[PERSON_EF61A579]''" "''gAAAAABJohn Smith''"]
  have 1: "store_mapping sample_env ''[PERSON_EF61A579]'' ''gAAAAABJohn Smith'' (fresh_state Engine True) =
     (Returns (),
      (fresh_state Engine True)
        \<lparr>token_store := [''[PERSON_EF61A579]'' \<mapsto> ''gAAAAABJohn Smith''],
         redis := [''pii:[PERSON_EF61A579]'' \<mapsto> (''gAAAAABJohn Smith'', 86400)],
         clock := 1,
         trace := [Redis_setex ''pii:[PERSON_EF61A579]'' 86400 ''gAAAAABJohn Smith'']\<rparr>)"
    by (simp add: fresh_state_def sample_env_def PII_TTL_SECONDS_def)
  from f store_mapping_routing [of "fresh_state Engine False" sample_env "''[PERSON_EF61A579]''" "''gAAAAABJohn Smith''"]
  have 2: "store_mapping sample_env ''[PERSON_EF61A579]'' ''gAAAAABJohn Smith'' (fresh_state Engine False) =
     (Returns (),
      (fresh_state Engine False)
        \<lparr>token_store := [''[PERSON_EF61A579]'' \<mapsto> ''gAAAAABJohn Smith''],
         token_file := Dict [''[PERSON_EF61A579]'' \<mapsto> ''gAAAAABJohn Smith''],
         clock := 1,
         trace := [File_exists, File_write]\<rparr>)"
    by (simp add: fresh_state_def sample_env_def)
  from 1 2 show ?thesis by blast
qed

subsection \<open>The lookup of the decoder\<close>

lemma lookup_token_memory:
  "token_store st tok = Some c \<Longrightarrow> c \<noteq> [] \<Longrightarrow> lookup_token E tok st = (Returns (Some c), st)"
  by (simp add: lookup_token_def falsy_def then_do_def)

lemma lookup_token_external:
  assumes "falsy (token_store st tok)" and "is_connected st"
    and "get_pii_mapping E tok st = (Returns (Some c), st1)" and "c \<noteq> []"
  shows "lookup_token E tok st =
           (Returns (Some c), st1\<lparr>token_store := (token_store st1)(tok \<mapsto> c)\<rparr>)"
  using assms by (simp add: lookup_token_def falsy_def then_do_def back_fill_def)

lemma lookup_token_file_connected:
  assumes "falsy (token_store st tok)" and "is_connected st"
    and "get_pii_mapping E tok st = (Returns v, st1)" and "falsy v"
    and "get_persisted_token E tok st1 = (Returns (Some c), st2)" and "c \<noteq> []"
  shows "lookup_token E tok st =
           (Returns (Some c), st2\<lparr>token_store := (token_store st2)(tok \<mapsto> c)\<rparr>)"
  using assms by (auto simp add: lookup_token_def falsy_def then_do_def back_fill_def)

lemma lookup_token_file_offline:
  assumes "falsy (token_store st tok)" and "\<not> is_connected st"
    and "get_persisted_token E tok st = (Returns (Some c), st2)" and "c \<noteq> []"
  shows "lookup_token E tok st =
           (Returns (Some c), st2\<lparr>token_store := (token_store st2)(tok \<mapsto> c)\<rparr>)"
  using assms by (auto simp add: lookup_token_def falsy_def then_do_def back_fill_def)

text \<open>
  C3: a non-empty value in the in-process cache is what the lookup returns, with no call
  to a slower tier, whatever the token file holds. A value found in the external cache, or
  in the token file when the external cache has none, is returned and back-filled into the
  in-process cache, and looking the token up again returns it and leaves the state as it is:
  no further call reaches the server or the file.
\<close>

theorem lookup_token_tiers:
  assumes "c \<noteq> []"
  shows "(token_store st tok = Some c \<longrightarrow> lookup_token E tok st = (Returns (Some c), st)) \<and>
         (falsy (token_store st tok) \<and> found_in_slower_tier E tok st c \<longrightarrow>
            (\<exists>st'. lookup_token E tok st = (Returns (Some c), st') \<and>
                   token_store st' tok = Some c \<and>
                   lookup_token E tok st' = (Returns (Some c), st')))"
proof (intro conjI impI)
  assume "token_store st tok = Some c"
  then show "lookup_token E tok st = (Returns (Some c), st)"
    using assms by (rule lookup_token_memory)
next
  assume a: "falsy (token_store st tok) \<and> found_in_slower_tier E tok st c"
  then have "\<exists>s. lookup_token E tok st = (Returns (Some c), s\<lparr>token_store := (token_store s)(tok \<mapsto> c)\<rparr>)"
    unfolding found_in_slower_tier_def
    using assms lookup_token_external lookup_token_file_connected lookup_token_file_offline
    by blast
  then obtain s where
    l: "lookup_token E tok st = (Returns (Some c), s\<lparr>token_store := (token_store s)(tok \<mapsto> c)\<rparr>)"
    by blast
  let ?st' = "s\<lparr>token_store := (token_store s)(tok \<mapsto> c)\<rparr>"
  have t: "token_store ?st' tok = Some c" by simp
  then have "lookup_token E tok ?st' = (Returns (Some c), ?st')"
    using assms by (rule lookup_token_memory)
  with l t show "\<exists>st'. lookup_token E tok st = (Returns (Some c), st') \<and>
      token_store st' tok = Some c \<and> lookup_token E tok st' = (Returns (Some c), st')"
    by blast
qed

theorem lookup_token_tiers_witness:
  "lookup_token sample_env ''[PERSON_EF61A579]'' stale_file_state =
     (Returns (Some ''gAAAAABJohn Smith''), stale_file_state) \<and>
   falsy (token_store file_only_state ''[PERSON_EF61A579]'') \<and>
   found_in_slower_tier sample_env ''[PERSON_EF61A579]'' file_only_state ''gAAAAABJohn Smith'' \<and>
   (\<exists>st'. lookup_token sample_env ''[PERSON_EF61A579]'' file_only_state =
            (Returns (Some ''gAAAAABJohn Smith''), st') \<and>
          token_store st' ''[PERSON_EF61A579]'' = Some ''gAAAAABJohn Smith'' \<and>
          lookup_token sample_env ''[PERSON_EF61A579]'' st' =
            (Returns (Some ''gAAAAABJohn Smith''), st'))"
proof -
  have ne: "''gAAAAABJohn Smith'' \<noteq> []" by simp
  have m: "token_store stale_file_state ''[PERSON_EF61A579]'' = Some ''gAAAAABJohn Smith''"
    by (simp add: stale_file_state_def fresh_state_def)
  have f: "falsy (token_store file_only_state ''[PERSON_EF61A579]'')"
    by (simp add: file_only_state_def fresh_state_def falsy_def)
  have s: "found_in_slower_tier sample_env ''[PERSON_EF61A579]'' file_only_state ''gAAAAABJohn Smith''"
    by (simp add: found_in_slower_tier_def get_persisted_token_def load_token_file_free
        then_do_def file_only_state_def fresh_state_def sample_env_def)
  from lookup_token_tiers [OF ne, of stale_file_state "''[PERSON_EF61A579]''" sample_env] m
  have 1: "lookup_token sample_env ''[PERSON_EF61A579]'' stale_file_state =
     (Returns (Some ''gAAAAABJohn Smith''), stale_file_state)" by blast
  from lookup_token_tiers [OF ne, of file_only_state "''[PERSON_EF61A579]''" sample_env] f s
  have 2: "\<exists>st'. lookup_token sample_env ''[PERSON_EF61A579]'' file_only_state =
            (Returns (Some ''gAAAAABJohn Smith''), st') \<and>
          token_store st' ''[PERSON_EF61A579]'' = Some ''gAAAAABJohn Smith'' \<and>
          lookup_token sample_env ''[PERSON_EF61A579]'' st' =
            (Returns (Some ''gAAAAABJohn Smith''), st')" by blast
  from 1 f s 2 show ?thesis by blast
qed


subsection \<open>The detector\<close>

lemma rebuild_spans:
  "map (\<lambda>res. \<lparr>entity_type = entity_type res, start = start res, end_pos = end_pos res,
                 score = score res\<rparr>) results = results"
  by (induction results) auto

lemma detect_pii_fallback:
  "analyzer st = Fallback \<Longrightarrow> detect_pii E text st = (Returns (regex_detect_pii E text), st)"
  by (simp add: detect_pii_def get_analyzer_def then_do_def)

lemma detect_pii_load_fails:
  "analyzer st = Unloaded \<Longrightarrow> \<not> engine_loads E (clock st) \<Longrightarrow>
     detect_pii E text st =
       (Returns (regex_detect_pii E text), st\<lparr>analyzer := Fallback, clock := Suc (clock st)\<rparr>)"
  by (simp add: detect_pii_def get_analyzer_def build_engine_def outcome_defs)

lemma detect_pii_engine:
  "analyzer st = Engine \<Longrightarrow>
     detect_pii E text st =
       (Returns (case analyze E (clock st) text of
                   None \<Rightarrow> regex_detect_pii E text
                 | Some results \<Rightarrow> results),
        st\<lparr>clock := Suc (clock st)\<rparr>)"
  by (cases "analyze E (clock st) text")
     (simp_all add: detect_pii_def get_analyzer_def engine_analyze_def outcome_defs rebuild_spans)

lemma detect_pii_load_succeeds:
  "analyzer st = Unloaded \<Longrightarrow> engine_loads E (clock st) \<Longrightarrow>
     detect_pii E text st =
       (Returns (case analyze E (Suc (clock st)) text of
                   None \<Rightarrow> regex_detect_pii E text
                 | Some results \<Rightarrow> results),
        st\<lparr>analyzer := Engine, clock := Suc (Suc (clock st))\<rparr>)"
  by (cases "analyze E (Suc (clock st)) text")
     (simp_all add: detect_pii_def get_analyzer_def build_engine_def engine_analyze_def
        outcome_defs rebuild_spans)

lemma detect_pii_returns: "\<exists>spans st'. detect_pii E text st = (Returns spans, st')"
proof (cases "analyzer st")
  case Unloaded
  then show ?thesis
    by (cases "engine_loads E (clock st)")
       (simp_all add: detect_pii_load_fails detect_pii_load_succeeds)
next
  case Fallback
  then show ?thesis by (simp add: detect_pii_fallback)
next
  case Engine
  then show ?thesis by (simp add: detect_pii_engine)
qed

lemma detect_all_fallback:
  "analyzer st = Fallback \<Longrightarrow>
     detect_all E texts st = map (\<lambda>text. Returns (regex_detect_pii E text)) texts"
  by (induction texts) (simp_all add: detect_pii_fallback)

lemma persist_token_held: "lock_held st \<Longrightarrow> persist_token E tok v st = (Hangs, st)"
  by (simp add: persist_token_def with_lock_def acquire_def outcome_defs)

lemma store_mapping_analyzer: "analyzer (snd (store_mapping E tok v st)) = analyzer st"
proof (cases "is_connected st")
  case True
  then show ?thesis by (simp add: store_mapping_connected)
next
  case False
  then show ?thesis
    by (cases "lock_held st"; cases "token_file st = Absent")
       (simp_all add: store_mapping_def persist_token_held persist_token_present
          persist_token_absent Let_def)
qed

lemma load_token_file_analyzer: "analyzer (snd (load_token_file E st)) = analyzer st"
  by (cases "lock_held st"; cases "token_file st = Absent")
     (simp_all add: load_token_file_absent load_token_file_held load_token_file_free emit_def)

lemma get_persisted_token_analyzer: "analyzer (snd (get_persisted_token E tok st)) = analyzer st"
  using load_token_file_analyzer [of E st]
  by (cases "load_token_file E st") (auto simp: get_persisted_token_def then_do_def split: outcome.splits)

lemma back_fill_analyzer: "analyzer (back_fill tok v st) = analyzer st"
  by (simp add: back_fill_def split: option.splits)

lemma get_pii_mapping_analyzer: "analyzer (snd (get_pii_mapping E tok st)) = analyzer st"
proof (cases "is_connected st")
  case True
  then show ?thesis by (simp add: get_pii_mapping_connected)
next
  case False
  then show ?thesis by (simp add: get_pii_mapping_def)
qed

lemma lookup_token_analyzer: "analyzer (snd (lookup_token E tok st)) = analyzer st"
proof -
  have g: "analyzer (snd (then_do (get_persisted_token E tok s) (\<lambda>v s'. (Returns v, back_fill tok v s'))))
      = analyzer s" for s
    using get_persisted_token_analyzer [of E tok s]
    by (cases "get_persisted_token E tok s")
       (auto simp: then_do_def back_fill_analyzer split: outcome.splits)
  show ?thesis
  proof (cases "falsy (token_store st tok) \<and> is_connected st")
    case True
    then show ?thesis
      using g by (simp add: lookup_token_def get_pii_mapping_connected then_do_def back_fill_analyzer)
  next
    case False
    then show ?thesis
      using g [of st] by (auto simp add: lookup_token_def then_do_def)
  qed
qed

lemma decode_loop_analyzer: "analyzer (snd (decode_loop E toks d st)) = analyzer st"
proof (induction toks arbitrary: d st)
  case Nil
  then show ?case by simp
next
  case (Cons tok toks)
  obtain r st1 where l: "lookup_token E tok st = (r, st1)" by (cases "lookup_token E tok st")
  then have a: "analyzer st1 = analyzer st" using lookup_token_analyzer [of E tok st] by simp
  show ?case
  proof (cases r)
    case (Returns v)
    show ?thesis
    proof (cases "falsy v")
      case True
      with l Returns a Cons.IH show ?thesis by simp
    next
      case False
      with l Returns a Cons.IH show ?thesis
        by (cases "decrypt_value E (the v)") (simp_all add: call_decrypt_def outcome_defs)
    qed
  next
    case Raises
    with l a show ?thesis by simp
  next
    case Hangs
    with l a show ?thesis by simp
  qed
qed

lemma decode_text_analyzer: "analyzer (snd (decode_text E text st)) = analyzer st"
  by (simp add: decode_text_def decode_loop_analyzer)

text \<open>
  C8: \<open>detect_pii\<close> always returns. When the engine fails to load, the call uses the
  regular expressions and the analyzer is set to the fallback; with the fallback set, every
  call uses the regular expressions and leaves the state as it is, and nothing else assigns
  the analyzer. When a loaded engine raises, that call uses the regular expressions and the
  engine stays.
\<close>

theorem detect_pii_total_and_fallback:
  "(\<exists>spans st'. detect_pii E text st = (Returns spans, st')) \<and>
   (analyzer st = Unloaded \<and> \<not> engine_loads E (clock st) \<longrightarrow>
      detect_pii E text st =
        (Returns (regex_detect_pii E text), st\<lparr>analyzer := Fallback, clock := Suc (clock st)\<rparr>)) \<and>
   (analyzer st = Fallback \<longrightarrow>
      detect_pii E text st = (Returns (regex_detect_pii E text), st) \<and>
      detect_all E texts st = map (\<lambda>text. Returns (regex_detect_pii E text)) texts) \<and>
   (analyzer st = Engine \<and> analyze E (clock st) text = None \<longrightarrow>
      detect_pii E text st = (Returns (regex_detect_pii E text), st\<lparr>clock := Suc (clock st)\<rparr>)) \<and>
   analyzer (snd (store_mapping E tok v st)) = analyzer st \<and>
   analyzer (snd (decode_text E text st)) = analyzer st"
  using detect_pii_returns [of E "text" st] detect_pii_load_fails [of st E "text"]
    detect_pii_fallback [of st E "text"] detect_all_fallback [of st E texts]
    detect_pii_engine [of st E "text"] store_mapping_analyzer [of E tok v st]
    decode_text_analyzer [of E "text" st]
  by simp

theorem detect_pii_total_and_fallback_witness:
  "detect_pii no_model_env ''1234 5678 9012'' (fresh_state Unloaded True) =
     (Returns [\<lparr>entity_type = ''PHONE_NUMBER'', start = 0, end_pos = 14, score = 1 / 2\<rparr>,
               \<lparr>entity_type = ''IN_AADHAAR'', start = 0, end_pos = 14, score = 1 / 2\<rparr>],
      (fresh_state Unloaded True)\<lparr>analyzer := Fallback, clock := 1\<rparr>) \<and>
   detect_all no_model_env [''Jane Doe'', ''jane@x.com''] (fresh_state Fallback True) =
     [Returns [\<lparr>entity_type = ''PERSON'', start = 0, end_pos = 8, score = 1 / 2\<rparr>],
      Returns [\<lparr>entity_type = ''EMAIL_ADDRESS'', start = 0, end_pos = 10, score = 1 / 2\<rparr>]] \<and>
   detect_pii failing_engine_env ''Jane Doe'' (fresh_state Engine True) =
     (Returns [\<lparr>entity_type = ''PERSON'', start = 0, end_pos = 8, score = 1 / 2\<rparr>],
      (fresh_state Engine True)\<lparr>clock := 1\<rparr>)"
proof -
  have r1: "regex_detect_pii no_model_env ''1234 5678 9012'' =
      [\<lparr>entity_type = ''PHONE_NUMBER'', start = 0, end_pos = 14, score = 1 / 2\<rparr>,
       \<lparr>entity_type = ''IN_AADHAAR'', start = 0, end_pos = 14, score = 1 / 2\<rparr>]"
    by (simp add: regex_detect_pii_def patterns_def no_model_env_def sample_env_def sample_finditer_def)
  have r2: "regex_detect_pii E ''Jane Doe'' =
      [\<lparr>entity_type = ''PERSON'', start = 0, end_pos = 8, score = 1 / 2\<rparr>]"
    if "finditer E = sample_finditer" for E
    using that by (simp add: regex_detect_pii_def patterns_def sample_finditer_def)
  have r3: "regex_detect_pii no_model_env ''jane@x.com'' =
      [\<lparr>entity_type = ''EMAIL_ADDRESS'', start = 0, end_pos = 10, score = 1 / 2\<rparr>]"
    by (simp add: regex_detect_pii_def patterns_def no_model_env_def sample_env_def sample_finditer_def)
  have f1: "finditer no_model_env = sample_finditer" by (simp add: no_model_env_def sample_env_def)
  have f2: "finditer failing_engine_env = sample_finditer"
    by (simp add: failing_engine_env_def sample_env_def)
  have a: "analyzer (fresh_state Unloaded True) = Unloaded \<and>
      \<not> engine_loads no_model_env (clock (fresh_state Unloaded True))"
    by (simp add: fresh_state_def no_model_env_def)
  have b: "analyzer (fresh_state Fallback True) = Fallback" by (simp add: fresh_state_def)
  have c: "analyzer (fresh_state Engine True) = Engine \<and>
      analyze failing_engine_env (clock (fresh_state Engine True)) ''Jane Doe'' = None"
    by (simp add: fresh_state_def failing_engine_env_def)
  from a detect_pii_total_and_fallback [of no_model_env "''1234 5678 9012''" "fresh_state Unloaded True"]
  have 1: "detect_pii no_model_env ''1234 5678 9012'' (fresh_state Unloaded True) =
     (Returns (regex_detect_pii no_model_env ''1234 5678 9012''),
      (fresh_state Unloaded True)\<lparr>analyzer := Fallback, clock := 1\<rparr>)"
    by (simp add: fresh_state_def)
  from b detect_pii_total_and_fallback [of no_model_env _ "fresh_state Fallback True" "[''Jane Doe'', ''jane@x.com'']"]
  have 2: "detect_all no_model_env [''Jane Doe'', ''jane@x.com''] (fresh_state Fallback True) =
     [Returns (regex_detect_pii no_model_env ''Jane Doe''),
      Returns (regex_detect_pii no_model_env ''jane@x.com'')]"
    by simp
  from c detect_pii_total_and_fallback [of failing_engine_env "''Jane Doe''" "fresh_state Engine True"]
  have 3: "detect_pii failing_engine_env ''Jane Doe'' (fresh_state Engine True) =
     (Returns (regex_detect_pii failing_engine_env ''Jane Doe''),
      (fresh_state Engine True)\<lparr>clock := 1\<rparr>)"
    by (simp add: fresh_state_def)
  from 1 2 3 show ?thesis by (simp only: r1 r2 [OF f1] r2 [OF f2] r3) 
qed


subsection \<open>What a lookup returns and changes\<close>

lemma tier_values_iff:
  "c \<in> set (tier_values tok st) \<longleftrightarrow>
     token_store st tok = Some c \<or> (\<exists>ttl. redis st (''pii:'' @ tok) = Some (c, ttl)) \<or>
     file_dict st tok = Some c"
  by (auto simp: tier_values_def List.map_filter_def)

lemma get_persisted_token_spec:
  assumes "\<not> lock_held st"
  shows "\<exists>v st'. get_persisted_token E tok st = (Returns v, st') \<and>
           (v = None \<or> v = file_dict st tok) \<and>
           st' = st\<lparr>clock := clock st', trace := trace st'\<rparr>"
proof (cases "token_file st = Absent")
  case True
  then show ?thesis
    by (simp add: get_persisted_token_def load_token_file_absent then_do_def emit_def file_dict_def)
next
  case False
  with assms show ?thesis
    by (simp add: get_persisted_token_def load_token_file_free then_do_def file_dict_def)
qed

lemma get_pii_mapping_spec:
  "\<exists>v st'. get_pii_mapping E tok st = (Returns v, st') \<and>
           (v = None \<or> v = map_option fst (redis st (''pii:'' @ tok))) \<and>
           st' = st\<lparr>clock := clock st', trace := trace st'\<rparr>"
proof (cases "is_connected st")
  case True
  then show ?thesis by (simp add: get_pii_mapping_connected)
next
  case False
  then show ?thesis by (simp add: get_pii_mapping_def)
qed

lemma back_fill_eq:
  "back_fill tok v s =
     s\<lparr>token_store := (if falsy v then token_store s else (token_store s)(tok \<mapsto> the v))\<rparr>"
  by (cases v) (simp_all add: back_fill_def falsy_def)

lemma file_step_spec:
  assumes "\<not> lock_held s"
  shows "\<exists>v st'.
           then_do (get_persisted_token E tok s) (\<lambda>v s'. (Returns v, back_fill tok v s')) =
             (Returns v, st') \<and>
           (\<not> falsy v \<longrightarrow> (\<exists>c. v = Some c \<and> c \<noteq> [] \<and> file_dict s tok = Some c)) \<and>
           st' = s\<lparr>token_store :=
                      (if falsy v then token_store s else (token_store s)(tok \<mapsto> the v)),
                    clock := clock st', trace := trace st'\<rparr>"
proof -
  from get_persisted_token_spec [OF assms, of E tok] obtain v s' where
    g: "get_persisted_token E tok s = (Returns v, s')" "v = None \<or> v = file_dict s tok"
    "s' = s\<lparr>clock := clock s', trace := trace s'\<rparr>" by blast
  have "back_fill tok v s' =
      s\<lparr>token_store := (if falsy v then token_store s else (token_store s)(tok \<mapsto> the v)),
        clock := clock s', trace := trace s'\<rparr>"
    by (subst g(3)) (simp add: back_fill_eq)
  moreover have "\<not> falsy v \<longrightarrow> (\<exists>c. v = Some c \<and> c \<noteq> [] \<and> file_dict s tok = Some c)"
    using g(2) by (cases v) (auto simp: falsy_def)
  ultimately show ?thesis using g(1) by (simp add: then_do_def)
qed

lemma lookup_token_spec:
  assumes "\<not> lock_held st"
  shows "\<exists>v st'. lookup_token E tok st = (Returns v, st') \<and>
           (\<not> falsy v \<longrightarrow> (\<exists>c. v = Some c \<and> c \<noteq> [] \<and> c \<in> set (tier_values tok st))) \<and>
           st' = st\<lparr>token_store :=
                       (if falsy v then token_store st else (token_store st)(tok \<mapsto> the v)),
                    clock := clock st', trace := trace st'\<rparr>"
proof (cases "falsy (token_store st tok)")
  case False
  then obtain c where "token_store st tok = Some c" "c \<noteq> []" by (auto simp: falsy_def)
  then show ?thesis
    by (simp add: lookup_token_memory tier_values_iff falsy_def fun_upd_idem)
next
  case mem: True
  show ?thesis
  proof (cases "is_connected st")
    case False
    from file_step_spec [OF assms, of E tok] obtain v st' where
      f: "then_do (get_persisted_token E tok st) (\<lambda>v s'. (Returns v, back_fill tok v s')) =
            (Returns v, st')"
      "\<not> falsy v \<longrightarrow> (\<exists>c. v = Some c \<and> c \<noteq> [] \<and> file_dict st tok = Some c)"
      "st' = st\<lparr>token_store :=
                  (if falsy v then token_store st else (token_store st)(tok \<mapsto> the v)),
                clock := clock st', trace := trace st'\<rparr>" by blast
    from mem False f(1) have "lookup_token E tok st = (Returns v, st')"
      by (simp add: lookup_token_def then_do_def)
    with f(2,3) show ?thesis by (auto simp: tier_values_iff)
  next
    case True
    from get_pii_mapping_spec [of E tok st] obtain v1 s1 where
      g: "get_pii_mapping E tok st = (Returns v1, s1)"
      "v1 = None \<or> v1 = map_option fst (redis st (''pii:'' @ tok))"
      "s1 = st\<lparr>clock := clock s1, trace := trace s1\<rparr>" by blast
    have same: "lock_held s1 = lock_held st" "file_dict s1 = file_dict st"
      "token_store s1 = token_store st"
      by (subst g(3), simp add: file_dict_def)+
    show ?thesis
    proof (cases "falsy v1")
      case False
      then obtain c where c: "v1 = Some c" "c \<noteq> []" by (auto simp: falsy_def)
      with g(2) have "\<exists>ttl. redis st (''pii:'' @ tok) = Some (c, ttl)"
        by (cases "redis st (''pii:'' @ tok)") auto
      then have "c \<in> set (tier_values tok st)" by (auto simp: tier_values_iff)
      moreover from mem True g(1) c
      have "lookup_token E tok st = (Returns (Some c), back_fill tok (Some c) s1)"
        by (simp add: lookup_token_def then_do_def falsy_def)
      moreover have "back_fill tok (Some c) s1 =
          st\<lparr>token_store := (token_store st)(tok \<mapsto> c), clock := clock s1, trace := trace s1\<rparr>"
        using c by (subst g(3)) (simp add: back_fill_def)
      ultimately show ?thesis using c by (simp add: falsy_def)
    next
      case f1: True
      then have bf: "back_fill tok v1 s1 = s1" by (auto simp: back_fill_def falsy_def)
      from same assms have "\<not> lock_held s1" by simp
      from file_step_spec [OF this, of E tok] obtain v st' where
        f: "then_do (get_persisted_token E tok s1) (\<lambda>v s'. (Returns v, back_fill tok v s')) =
              (Returns v, st')"
        "\<not> falsy v \<longrightarrow> (\<exists>c. v = Some c \<and> c \<noteq> [] \<and> file_dict s1 tok = Some c)"
        "st' = s1\<lparr>token_store :=
                    (if falsy v then token_store s1 else (token_store s1)(tok \<mapsto> the v)),
                  clock := clock st', trace := trace st'\<rparr>" by blast
      from mem True g(1) f1 bf f(1) have "lookup_token E tok st = (Returns v, st')"
        by (simp add: lookup_token_def then_do_def)
      moreover have "st' =
          st\<lparr>token_store := (if falsy v then token_store st else (token_store st)(tok \<mapsto> the v)),
             clock := clock st', trace := trace st'\<rparr>"
        by (subst f(3), subst g(3)) (simp add: same)
      ultimately show ?thesis using f(2) same by (auto simp: tier_values_iff)
    qed
  qed
qed

subsection \<open>Replacing tokens in a text\<close>

lemma token_shaped_Cons:
  assumes "token_shaped t"
  obtains body where "t = CHR ''['' # body @ '']''" and "CHR ''['' \<notin> set body"
    and "CHR '']'' \<notin> set body"
  using assms unfolding token_shaped_def by blast

lemma replace_all_no_open:
  assumes "token_shaped t" and "CHR ''['' \<notin> set u"
  shows "replace_all t v (u @ w) = u @ replace_all t v w"
  using assms(2)
proof (induction u)
  case Nil
  then show ?case by simp
next
  case (Cons c u)
  from assms(1) obtain body where "t = CHR ''['' # body @ '']''" by (rule token_shaped_Cons)
  with Cons.prems have "\<not> prefix t (c # u @ w)" by auto
  with Cons show ?case by simp
qed

lemma bracket_body_unique:
  assumes "prefix (bt @ '']'') (bx @ '']'' @ b)"
    and "CHR '']'' \<notin> set bt" and "CHR '']'' \<notin> set bx"
  shows "bt = bx"
proof -
  from assms(1) obtain z where z: "bx @ '']'' @ b = (bt @ '']'') @ z" by (auto simp: prefix_def)
  have "takeWhile (\<lambda>x. x \<noteq> CHR '']'') (bx @ '']'' @ b) = bx"
    using assms(3) by (induction bx) auto
  moreover have "takeWhile (\<lambda>x. x \<noteq> CHR '']'') ((bt @ '']'') @ z) = bt"
    using assms(2) by (induction bt) auto
  ultimately show ?thesis using z by simp
qed

lemma token_not_prefix_of_other:
  assumes "token_shaped t" and "token_shaped X" and "t \<noteq> X"
  shows "\<not> prefix t (X @ b)"
proof
  assume p: "prefix t (X @ b)"
  from assms(1) obtain bt where t: "t = CHR ''['' # bt @ '']''" and nt: "CHR '']'' \<notin> set bt"
    by (rule token_shaped_Cons)
  from assms(2) obtain bx where x: "X = CHR ''['' # bx @ '']''" and nx: "CHR '']'' \<notin> set bx"
    by (rule token_shaped_Cons)
  from p have "prefix (bt @ '']'') (bx @ '']'' @ b)" by (simp add: t x)
  then have "bt = bx" using nt nx by (rule bracket_body_unique)
  with t x assms(3) show False by simp
qed

lemma replace_all_skip_token:
  assumes "token_shaped t" and "token_shaped X" and "t \<noteq> X"
  shows "replace_all t v (X @ b) = X @ replace_all t v b"
proof -
  from assms(2) obtain bx where x: "X = CHR ''['' # bx @ '']''" and nx: "CHR ''['' \<notin> set bx"
    by (rule token_shaped_Cons)
  have "\<not> prefix t (X @ b)" using assms by (rule token_not_prefix_of_other)
  then have "replace_all t v (X @ b) = CHR ''['' # replace_all t v ((bx @ '']'') @ b)"
    by (simp add: x)
  also have "replace_all t v ((bx @ '']'') @ b) = (bx @ '']'') @ replace_all t v b"
    using assms(1) nx by (intro replace_all_no_open) auto
  finally show ?thesis by (simp add: x)
qed

lemma replace_all_same_token:
  assumes "token_shaped t"
  shows "replace_all t v (t @ b) = v @ replace_all t v b"
proof -
  from assms obtain bt where t: "t = CHR ''['' # bt @ '']''" by (rule token_shaped_Cons)
  have "prefix t (t @ b)" by simp
  then show ?thesis unfolding t by simp
qed

lemma token_prefix_inside:
  assumes "token_shaped t" and "token_shaped X" and "prefix t (a @ X @ b)" and "a \<noteq> []"
  shows "prefix t a"
proof -
  from assms(3) consider "prefix t a" | us where "t = a @ us" "prefix us (X @ b)"
    by (auto simp: prefix_append)
  then show ?thesis
  proof cases
    case 1
    then show ?thesis .
  next
    case 2
    from assms(1) obtain bt where t: "t = CHR ''['' # bt @ '']''" and nt: "CHR ''['' \<notin> set bt"
      by (rule token_shaped_Cons)
    from assms(2) obtain bx where x: "X = CHR ''['' # bx @ '']''" by (rule token_shaped_Cons)
    show ?thesis
    proof (cases us)
      case Nil
      with 2 show ?thesis by simp
    next
      case (Cons u us')
      with 2(2) x have "u = CHR ''[''" by simp
      with 2(1) Cons have ta: "t = a @ CHR ''['' # us'" by simp
      from assms(4) obtain c a' where a: "a = c # a'" by (cases a) auto
      with ta t have "bt @ '']'' = a' @ CHR ''['' # us'" by simp
      then have "CHR ''['' \<in> set (bt @ '']'')" by simp
      with nt show ?thesis by simp
    qed
  qed
qed

lemma replace_all_around_token:
  assumes "token_shaped t" and "token_shaped X"
  shows "replace_all t v (a @ X @ b) =
           replace_all t v a @ (if X = t then v else X) @ replace_all t v b"
  using assms
proof (induction t v a rule: replace_all.induct)
  case (1 old new)
  then show ?case
    using replace_all_skip_token [of old X new b] replace_all_same_token [of old new b]
    by auto
next
  case (2 old new c cs)
  show ?case
  proof (cases "prefix old (c # cs)")
    case True
    then have "prefix old (c # cs @ X @ b)"
      by (metis append_Cons prefix_prefix)
    moreover from True have "length old \<le> Suc (length cs)"
      using prefix_length_le by fastforce
    then have "drop (length old - 1) (cs @ X @ b) = drop (length old - 1) cs @ X @ b"
      by simp
    ultimately show ?thesis using True 2 by simp
  next
    case False
    then have "\<not> prefix old (c # cs @ X @ b)"
      using token_prefix_inside [of old X "c # cs" b] 2(3,4) by auto
    with False 2 show ?thesis by simp
  qed
qed

lemma str_replace_around_token:
  assumes "token_shaped t" and "token_shaped X"
  shows "str_replace (a @ X @ b) t v =
           str_replace a t v @ (if X = t then v else X) @ str_replace b t v"
proof -
  from assms(1) have "t \<noteq> []" by (auto simp: token_shaped_def)
  then show ?thesis using replace_all_around_token [OF assms] by (simp add: str_replace_def)
qed

lemma apply_replacements_around_token:
  assumes "token_shaped X" and "\<forall>tv \<in> set reps. token_shaped (fst tv) \<and> fst tv \<noteq> X"
  shows "apply_replacements reps (a @ X @ b) =
           apply_replacements reps a @ X @ apply_replacements reps b"
  using assms(2)
proof (induction reps arbitrary: a b)
  case Nil
  then show ?case by (simp add: apply_replacements_def)
next
  case (Cons tv reps)
  obtain t v where tv: "tv = (t, v)" by (cases tv)
  with Cons.prems have t: "token_shaped t" "t \<noteq> X" by auto
  have "apply_replacements (tv # reps) (a @ X @ b) =
      apply_replacements reps (str_replace (a @ X @ b) t v)"
    by (simp add: apply_replacements_def tv)
  also have "str_replace (a @ X @ b) t v = str_replace a t v @ X @ str_replace b t v"
    using str_replace_around_token [OF t(1) assms(1)] t(2) by auto
  also have "apply_replacements reps (str_replace a t v @ X @ str_replace b t v) =
      apply_replacements reps (str_replace a t v) @ X @ apply_replacements reps (str_replace b t v)"
    using Cons.prems by (intro Cons.IH) auto
  finally show ?case by (simp add: apply_replacements_def tv)
qed

lemma undecodable_step:
  assumes "undecodable E X st"
    and "\<not> falsy v \<longrightarrow> (\<exists>c. v = Some c \<and> c \<noteq> [] \<and> c \<in> set (tier_values tok st))"
    and "st' = st\<lparr>token_store :=
                     (if falsy v then token_store st else (token_store st)(tok \<mapsto> the v)),
                   clock := k, trace := tr\<rparr>"
  shows "undecodable E X st'"
proof -
  have same: "redis st' = redis st" "file_dict st' = file_dict st"
    by (simp_all add: assms(3) file_dict_def)
  have sub: "c \<in> set (tier_values X st)" if c: "c \<in> set (tier_values X st')" for c
  proof (cases "falsy v \<or> tok \<noteq> X")
    case True
    then have "token_store st' X = token_store st X"
      by (cases "falsy v") (simp_all add: assms(3))
    with c same show ?thesis by (simp add: tier_values_iff)
  next
    case False
    with assms(2) obtain c' where c': "v = Some c'" "c' \<in> set (tier_values X st)" by auto
    from False c'(1) have "token_store st' X = Some c'" by (simp add: assms(3))
    with c same c'(2) show ?thesis by (auto simp add: tier_values_iff)
  qed
  show ?thesis
    unfolding undecodable_def
  proof
    fix c
    assume "c \<in> set (tier_values X st')"
    then have "c \<in> set (tier_values X st)" by (rule sub)
    with assms(1) show "c = [] \<or> decrypt_value E c = None" by (simp add: undecodable_def)
  qed
qed

subsection \<open>Decoding fails open\<close>

lemma decode_loop_fail_open:
  assumes "\<not> lock_held st" and "\<forall>X \<in> U. undecodable E X st"
  shows "\<exists>reps st'. decode_loop E toks d st = (Returns (apply_replacements reps d), st') \<and>
           (\<forall>tv \<in> set reps. fst tv \<in> set toks \<and> fst tv \<notin> U)"
  using assms
proof (induction toks arbitrary: d st)
  case Nil
  have "decode_loop E [] d st = (Returns (apply_replacements [] d), st)"
    by (simp add: apply_replacements_def)
  then show ?case by (metis empty_iff empty_set)
next
  case (Cons tok toks)
  from lookup_token_spec [OF Cons.prems(1), of E tok] obtain v st1 where
    l: "lookup_token E tok st = (Returns v, st1)"
    and v: "\<not> falsy v \<longrightarrow> (\<exists>c. v = Some c \<and> c \<noteq> [] \<and> c \<in> set (tier_values tok st))"
    and s: "st1 = st\<lparr>token_store :=
                       (if falsy v then token_store st else (token_store st)(tok \<mapsto> the v)),
                     clock := clock st1, trace := trace st1\<rparr>"
    by blast
  have free: "\<not> lock_held st1" using Cons.prems(1) by (subst s) simp
  have und: "\<forall>X \<in> U. undecodable E X st1"
    using Cons.prems(2) undecodable_step [OF _ v s] by blast
  have keep: "\<exists>reps st'. decode_loop E toks d st1 = (Returns (apply_replacements reps d), st') \<and>
           (\<forall>tv \<in> set reps. fst tv \<in> set (tok # toks) \<and> fst tv \<notin> U)"
    using Cons.IH [OF free und, of d] by auto
  show ?case
  proof (cases "falsy v")
    case True
    with l keep show ?thesis by simp
  next
    case False
    with v obtain c where c: "v = Some c" "c \<noteq> []" "c \<in> set (tier_values tok st)" by auto
    show ?thesis
    proof (cases "decrypt_value E c")
      case None
      with l False c keep show ?thesis
        by (simp add: call_decrypt_def then_do_def try_except_def)
    next
      case (Some original)
      with c Cons.prems(2) have notU: "tok \<notin> U" unfolding undecodable_def by force
      from Cons.IH [OF free und, of "str_replace d tok original"] obtain reps st' where
        r: "decode_loop E toks (str_replace d tok original) st1 =
              (Returns (apply_replacements reps (str_replace d tok original)), st')"
        "\<forall>tv \<in> set reps. fst tv \<in> set toks \<and> fst tv \<notin> U" by blast
      have "decode_loop E (tok # toks) d st =
          (Returns (apply_replacements ((tok, original) # reps) d), st')"
        using l False c Some r(1)
        by (simp add: call_decrypt_def then_do_def try_except_def apply_replacements_def)
      moreover have "\<forall>tv \<in> set ((tok, original) # reps). fst tv \<in> set (tok # toks) \<and> fst tv \<notin> U"
        using r(2) notU by auto
      ultimately show ?thesis by blast
    qed
  qed
qed

lemma set_set_iteration: "set (set_iteration E xs) = set xs"
  by (simp add: set_iteration_def)

text \<open>
  C4: \<open>decode_text\<close> returns (it neither raises nor blocks, the file lock being free at the
  call). A token for which no tier holds a value, or only values that are empty or fail to
  decrypt, stays where it is: the text before it and the text after it are each rewritten
  by the replacements of the other tokens only. When this holds of every token found, the
  text is returned as it is.
\<close>

theorem decode_text_fail_open:
  assumes "\<not> lock_held st"
  shows "(fullmatch_token X \<and> undecodable E X st \<longrightarrow>
            (\<exists>reps st'. decode_text E (a @ X @ b) st =
                 (Returns (apply_replacements reps a @ X @ apply_replacements reps b), st') \<and>
               X \<notin> fst ` set reps)) \<and>
         ((\<forall>t \<in> set (tokens_found text). undecodable E t st) \<longrightarrow>
            (\<exists>st'. decode_text E text st = (Returns text, st')))"
proof (intro conjI impI)
  assume x: "fullmatch_token X \<and> undecodable E X st"
  then have "\<forall>Y \<in> {X}. undecodable E Y st" by simp
  from decode_loop_fail_open [OF assms this, of "set_iteration E (tokens_found (a @ X @ b))" "a @ X @ b"]
  obtain reps st' where
    r: "decode_text E (a @ X @ b) st = (Returns (apply_replacements reps (a @ X @ b)), st')"
    "\<forall>tv \<in> set reps. fst tv \<in> set (tokens_found (a @ X @ b)) \<and> fst tv \<noteq> X"
    by (auto simp: decode_text_def set_set_iteration)
  have "\<forall>tv \<in> set reps. token_shaped (fst tv) \<and> fst tv \<noteq> X"
    using r(2) tokens_found_sound fullmatch_token_shaped by blast
  with x have "apply_replacements reps (a @ X @ b) =
      apply_replacements reps a @ X @ apply_replacements reps b"
    by (intro apply_replacements_around_token fullmatch_token_shaped) auto
  with r show "\<exists>reps st'. decode_text E (a @ X @ b) st =
      (Returns (apply_replacements reps a @ X @ apply_replacements reps b), st') \<and>
      X \<notin> fst ` set reps"
    by force
next
  assume "\<forall>t \<in> set (tokens_found text). undecodable E t st"
  from decode_loop_fail_open [OF assms this, of "set_iteration E (tokens_found text)" "text"]
  obtain reps st' where
    r: "decode_text E text st = (Returns (apply_replacements reps text), st')"
    "\<forall>tv \<in> set reps. fst tv \<in> set (tokens_found text) \<and> fst tv \<notin> set (tokens_found text)"
    by (auto simp: decode_text_def set_set_iteration)
  from r(2) have "reps = []" by (cases reps) auto
  with r(1) show "\<exists>st'. decode_text E text st = (Returns text, st')"
    by (simp add: apply_replacements_def)
qed

theorem decode_text_fail_open_witness:
  "\<not> lock_held one_mapping_state \<and> fullmatch_token ''[PERSON_0A1B2C3D]'' \<and>
   undecodable sample_env ''[PERSON_0A1B2C3D]'' one_mapping_state \<and>
   (\<exists>reps st'. decode_text sample_env (''From '' @ ''[PERSON_0A1B2C3D]'' @ '' to [PERSON_EF61A579]'')
        one_mapping_state =
          (Returns (apply_replacements reps ''From '' @ ''[PERSON_0A1B2C3D]'' @
                    apply_replacements reps '' to [PERSON_EF61A579]''), st') \<and>
      ''[PERSON_0A1B2C3D]'' \<notin> fst ` set reps) \<and>
   tokens_found ''From [PERSON_0A1B2C3D]'' = [''[PERSON_0A1B2C3D]''] \<and>
   (\<exists>st'. decode_text sample_env ''From [PERSON_0A1B2C3D]'' one_mapping_state =
      (Returns ''From [PERSON_0A1B2C3D]'', st'))"
proof -
  have l: "\<not> lock_held one_mapping_state"
    by (simp add: one_mapping_state_def fresh_state_def)
  have f: "fullmatch_token ''[PERSON_0A1B2C3D]''"
    by (simp add: fullmatch_token_def Let_def hex_char_def type_char_def)
  have u: "undecodable sample_env ''[PERSON_0A1B2C3D]'' one_mapping_state"
    by (simp add: undecodable_def tier_values_def List.map_filter_def file_dict_def
        one_mapping_state_def fresh_state_def)
  have t: "tokens_found ''From [PERSON_0A1B2C3D]'' = [''[PERSON_0A1B2C3D]'']"
    by (simp add: match_token_def fullmatch_token_def Let_def hex_char_def type_char_def)
  have a: "\<forall>t \<in> set (tokens_found ''From [PERSON_0A1B2C3D]''). undecodable sample_env t one_mapping_state"
    unfolding t using u by simp
  from decode_text_fail_open [OF l, of "''[PERSON_0A1B2C3D]''" sample_env "''From ''"
      "'' to [PERSON_EF61A579]''" "''From [PERSON_0A1B2C3D]''"] f u a
  show ?thesis using l t by blast
qed

lemma decode_text_keeps_unknown_token:
  "fst (decode_text sample_env ''From [PERSON_0A1B2C3D] to [PERSON_EF61A579]'' one_mapping_state) =
     Returns ''From [PERSON_0A1B2C3D] to John Smith''"
  by (simp add: decode_text_def set_iteration_def match_token_def fullmatch_token_def Let_def
      hex_char_def type_char_def lookup_token_def falsy_def then_do_def try_except_def
      call_decrypt_def str_replace_def get_pii_mapping_connected get_persisted_token_def
      load_token_file_absent back_fill_def emit_def
      one_mapping_state_def fresh_state_def sample_env_def)

end
